(* ===== verification/Prelude.thy ===== *)
theory Prelude
  imports Main "HOL-Library.Word"
begin

text \<open>
  Shared vocabulary of the development: the machine integers of the Rust sources, panics as
  values of a sum type, the two sequencing combinators every operation is written with, Rust's
  checked and overflowing integer operations, and the lemmas on them that the components use.

  Both the contract and the types crate are compiled with \<^verbatim>\<open>overflow-checks = true\<close>
  (\<^verbatim>\<open>contract/Cargo.toml\<close>, \<^verbatim>\<open>btc-types/Cargo.toml\<close>), so a plain \<open>+\<close>, \<open>-\<close> or \<open>*\<close> of the
  source panics on overflow: it is one of the \<open>checked\<close> operations below. A panic aborts the
  NEAR call and reverts its state changes, so an operation of the contract returns either the
  panic or the new state.
\<close>

section \<open>Machine integers\<close>

type_synonym u8 = "8 word"
type_synonym u32 = "32 word"
type_synonym u64 = "64 word"
type_synonym u128 = "128 word"
type_synonym i32 = "32 word" \<comment> \<open>read with \<open>sint\<close>\<close>
type_synonym usize = "32 word" \<comment> \<open>the contract runs on wasm32\<close>

named_theorems result_simps \<open>inversion rules of the result combinators\<close>
named_theorems u256_simps \<open>the value of every U256 operation as a natural number\<close>

section \<open>Panics and results\<close>

datatype panic =
    Panic string      \<comment> \<open>\<open>require!\<close>, \<open>env::panic_str\<close>, \<open>expect\<close>\<close>
  | Overflow          \<comment> \<open>integer overflow under overflow checks\<close>
  | Unwrap            \<comment> \<open>\<open>unwrap\<close> of an \<open>Err\<close> or a \<open>None\<close>\<close>
  | AssertFailed      \<comment> \<open>\<open>assert!\<close>, \<open>assert_eq!\<close>\<close>
  | IndexOutOfBounds  \<comment> \<open>slice or array index\<close>
  | GasExceeded       \<comment> \<open>the call ran out of gas inside a loop\<close>

type_synonym 'a result = "panic + 'a"

text \<open>Rust's \<open>?\<close>: continue with the value, or return the error. It serves panics and \<open>Result\<close>s alike.\<close>

definition rbind :: "'e + 'a \<Rightarrow> ('a \<Rightarrow> 'e + 'b) \<Rightarrow> 'e + 'b" where
  "rbind r f = (case r of Inl e \<Rightarrow> Inl e | Inr x \<Rightarrow> f x)"

definition req :: "bool \<Rightarrow> string \<Rightarrow> 'a result \<Rightarrow> 'a result" where
  "req b msg k = (if b then k else Inl (Panic msg))"

definition get_or :: "panic \<Rightarrow> 'a option \<Rightarrow> 'a result" where
  "get_or e m = (case m of None \<Rightarrow> Inl e | Some x \<Rightarrow> Inr x)"

lemma rbind_simps [simp]:
  "rbind (Inl e) f = Inl e"
  "rbind (Inr x) f = f x"
  by (simp_all add: rbind_def)

lemma rbind_Inr [result_simps]: "rbind r f = Inr y \<longleftrightarrow> (\<exists>x. r = Inr x \<and> f x = Inr y)"
  by (cases r) auto

lemma rbind_Inl [result_simps]:
  "rbind r f = Inl e \<longleftrightarrow> r = Inl e \<or> (\<exists>x. r = Inr x \<and> f x = Inl e)"
  by (cases r) auto

lemma rbind_assoc: "rbind (rbind r f) g = rbind r (\<lambda>x. rbind (f x) g)"
  by (cases r) auto

lemma rbind_cong [cong]: "r = r' \<Longrightarrow> (\<And>x. r' = Inr x \<Longrightarrow> f x = g x) \<Longrightarrow> rbind r f = rbind r' g"
  by (cases r') auto

lemma req_simps [simp]:
  "req True msg k = k"
  "req False msg k = Inl (Panic msg)"
  by (simp_all add: req_def)

lemma req_Inr [result_simps]: "req b msg k = Inr x \<longleftrightarrow> b \<and> k = Inr x"
  by (cases b) auto

lemma req_Inl [result_simps]:
  "req b msg k = Inl e \<longleftrightarrow> (\<not> b \<and> e = Panic msg) \<or> (b \<and> k = Inl e)"
  by (cases b) auto

lemma get_or_simps [simp]:
  "get_or e None = Inl e"
  "get_or e (Some x) = Inr x"
  by (simp_all add: get_or_def)

lemma get_or_Inr [result_simps]: "get_or e m = Inr x \<longleftrightarrow> m = Some x"
  by (cases m) auto

lemma get_or_Inl [result_simps]: "get_or e m = Inl e' \<longleftrightarrow> m = None \<and> e' = e"
  by (cases m) auto

text \<open>A loop whose body may panic, run over the list of its iterations.\<close>

fun for_each :: "('x \<Rightarrow> 's \<Rightarrow> 's result) \<Rightarrow> 'x list \<Rightarrow> 's \<Rightarrow> 's result" where
  "for_each f [] s = Inr s"
| "for_each f (x # xs) s = rbind (f x s) (for_each f xs)"

lemma for_each_append:
  "for_each f (xs @ ys) s = rbind (for_each f xs s) (for_each f ys)"
  by (induction xs arbitrary: s) (simp_all add: rbind_assoc)

lemma for_each_invariant:
  assumes "for_each f xs s = Inr s'" "P s"
    and "\<And>x s s'. x \<in> set xs \<Longrightarrow> P s \<Longrightarrow> f x s = Inr s' \<Longrightarrow> P s'"
  shows "P s'"
  using assms by (induction xs arbitrary: s) (auto simp: result_simps)

section \<open>Rust's integer operations\<close>

definition checked_add :: "'a::len word \<Rightarrow> 'a word \<Rightarrow> 'a word result" where
  "checked_add a b = (if unat a + unat b < 2 ^ LENGTH('a) then Inr (a + b) else Inl Overflow)"

definition checked_sub :: "'a::len word \<Rightarrow> 'a word \<Rightarrow> 'a word result" where
  "checked_sub a b = (if b \<le> a then Inr (a - b) else Inl Overflow)"

definition checked_mul :: "'a::len word \<Rightarrow> 'a word \<Rightarrow> 'a word result" where
  "checked_mul a b = (if unat a * unat b < 2 ^ LENGTH('a) then Inr (a * b) else Inl Overflow)"

definition overflowing_add_w :: "'a::len word \<Rightarrow> 'a word \<Rightarrow> 'a word \<times> bool" where
  "overflowing_add_w a b = (a + b, 2 ^ LENGTH('a) \<le> unat a + unat b)"

definition overflowing_mul_w :: "'a::len word \<Rightarrow> 'a word \<Rightarrow> 'a word \<times> bool" where
  "overflowing_mul_w a b = (a * b, 2 ^ LENGTH('a) \<le> unat a * unat b)"

definition saturating_sub_w :: "'a::len word \<Rightarrow> 'a word \<Rightarrow> 'a word" where
  "saturating_sub_w a b = (if a < b then 0 else a - b)"

definition saturating_mul_w :: "'a::len word \<Rightarrow> 'a word \<Rightarrow> 'a word" where
  "saturating_mul_w a b = (if unat a * unat b < 2 ^ LENGTH('a) then a * b else - 1)"

lemma unat_lt_exp: "unat (a :: 'a::len word) < 2 ^ LENGTH('a)"
  by (rule unsigned_less)

lemma unat_of_nat_small: "n < 2 ^ LENGTH('a::len) \<Longrightarrow> unat (word_of_nat n :: 'a word) = n"
  by (simp add: unat_of_nat)

lemma checked_add_Inr [result_simps]:
  "checked_add a b = Inr c \<longleftrightarrow> unat c = unat a + unat b"
  for a b c :: "'a::len word"
  unfolding checked_add_def
  by (auto simp: unat_word_ariths word_unat_eq_iff intro: unat_lt_exp)
     (metis unat_lt_exp)

lemma checked_sub_Inr [result_simps]:
  "checked_sub a b = Inr c \<longleftrightarrow> unat a = unat b + unat c"
  for a b c :: "'a::len word"
  unfolding checked_sub_def
  by (auto simp: unat_sub word_le_nat_alt word_unat_eq_iff)

lemma checked_mul_Inr [result_simps]:
  "checked_mul a b = Inr c \<longleftrightarrow> unat c = unat a * unat b"
  for a b c :: "'a::len word"
  unfolding checked_mul_def
  by (auto simp: unat_word_ariths word_unat_eq_iff intro: unat_lt_exp)
     (metis unat_lt_exp)

lemma unat_saturating_sub_w [simp]: "unat (saturating_sub_w a b) = unat a - unat b"
  by (auto simp: saturating_sub_w_def word_less_nat_alt unat_sub word_le_nat_alt)

section \<open>Little-endian bytes\<close>

text \<open>\<open>from_le_bytes\<close> and \<open>to_le_bytes\<close> of the unsigned integer types.\<close>

fun le_val :: "u8 list \<Rightarrow> nat" where
  "le_val [] = 0"
| "le_val (b # bs) = unat b + 256 * le_val bs"

fun le_bytes :: "nat \<Rightarrow> nat \<Rightarrow> u8 list" where
  "le_bytes 0 n = []"
| "le_bytes (Suc k) n = word_of_nat n # le_bytes k (n div 256)"

definition from_le_bytes_w :: "u8 list \<Rightarrow> 'a::len word" where
  "from_le_bytes_w bs = word_of_nat (le_val bs)"

definition from_be_bytes_w :: "u8 list \<Rightarrow> 'a::len word" where
  "from_be_bytes_w bs = from_le_bytes_w (rev bs)"

definition to_le_bytes_w :: "'a::len word \<Rightarrow> u8 list" where
  "to_le_bytes_w w = le_bytes (LENGTH('a) div 8) (unat w)"

definition to_be_bytes_w :: "'a::len word \<Rightarrow> u8 list" where
  "to_be_bytes_w w = rev (to_le_bytes_w w)"

lemma length_le_bytes [simp]: "length (le_bytes k n) = k"
  by (induction k arbitrary: n) auto

lemma le_val_le_bytes: "le_val (le_bytes k n) = n mod 256 ^ k"
proof (induction k arbitrary: n)
  case 0
  then show ?case by simp
next
  case (Suc k)
  have "n mod 256 + 256 * (n div 256 mod 256 ^ k) = n mod (256 * 256 ^ k)"
    by (simp add: mod_mult2_eq)
  then show ?case by (simp add: Suc unat_of_nat)
qed

lemma le_bytes_le_val: "le_bytes (length bs) (le_val bs) = bs"
proof (induction bs)
  case Nil
  then show ?case by simp
next
  case (Cons b bs)
  have b: "unat b < 256" using unat_lt_exp [of b] by simp
  have "word_of_nat (unat b + 256 * le_val bs) = b"
  proof -
    have "(256 :: u8) = 0" by (simp add: word_unat_eq_iff)
    then have "256 * word_of_nat (le_val bs) = (0 :: u8)" by (metis mult_zero_left)
    then show ?thesis by simp
  qed
  moreover have "(unat b + 256 * le_val bs) div 256 = le_val bs"
    using b by simp
  ultimately show ?case using Cons by simp
qed

lemma le_val_less: "le_val bs < 256 ^ length bs"
  using le_val_le_bytes [of "length bs" "le_val bs"] by (metis le_bytes_le_val mod_less_divisor zero_less_numeral zero_less_power)

lemma length_to_le_bytes_w [simp]: "length (to_le_bytes_w (w :: 'a::len word)) = LENGTH('a) div 8"
  by (simp add: to_le_bytes_w_def)

lemma from_to_le_bytes_w:
  assumes "8 dvd LENGTH('a::len)"
  shows "from_le_bytes_w (to_le_bytes_w (w :: 'a word)) = w"
proof -
  from assms obtain k where k: "LENGTH('a) = 8 * k" by blast
  then have "(256 :: nat) ^ (LENGTH('a) div 8) = 2 ^ LENGTH('a)"
    by (simp add: power_mult)
  then have "le_val (to_le_bytes_w w) = unat w"
    by (simp add: to_le_bytes_w_def le_val_le_bytes)
  then show ?thesis by (simp add: from_le_bytes_w_def)
qed

lemma unat_from_le_bytes_w:
  assumes "LENGTH('a::len) = 8 * length bs"
  shows "unat (from_le_bytes_w bs :: 'a word) = le_val bs"
proof -
  have "le_val bs < 2 ^ LENGTH('a)"
    using le_val_less [of bs] by (simp add: assms power_mult)
  then show ?thesis by (simp add: from_le_bytes_w_def unat_of_nat)
qed

lemma to_from_le_bytes_w:
  assumes "LENGTH('a::len) = 8 * length bs"
  shows "to_le_bytes_w (from_le_bytes_w bs :: 'a word) = bs"
  using assms by (simp add: to_le_bytes_w_def unat_from_le_bytes_w le_bytes_le_val)

section \<open>Integer ranges\<close>

text \<open>\<open>for i in a..b\<close> over unsigned integers: the values \<open>a, a + 1, \<dots>, b - 1\<close>.\<close>

definition word_range :: "'a::len word \<Rightarrow> 'a word \<Rightarrow> 'a word list" where
  "word_range a b = map word_of_nat [unat a ..< unat b]"

lemma length_word_range [simp]: "length (word_range a b) = unat b - unat a"
  by (simp add: word_range_def)

lemma set_word_range: "set (word_range a b) = {x. a \<le> x \<and> x < b}"
  for a b :: "'a::len word"
proof -
  have "x \<in> word_of_nat ` {unat a ..< unat b}" if "a \<le> x" "x < b" for x
    using that by (intro image_eqI [of _ _ "unat x"]) (auto simp: word_le_nat_alt word_less_nat_alt)
  moreover have "a \<le> word_of_nat n \<and> word_of_nat n < b" if "unat a \<le> n" "n < unat b" for n
  proof -
    have "n < 2 ^ LENGTH('a)" using that unat_lt_exp [of b] by linarith
    then have "unat (word_of_nat n :: 'a word) = n" by (simp add: unat_of_nat)
    then show ?thesis using that by (simp add: word_le_nat_alt word_less_nat_alt)
  qed
  ultimately show ?thesis by (auto simp: word_range_def)
qed

text \<open>\<open>for i in a..=b\<close>.\<close>

definition word_range_incl :: "'a::len word \<Rightarrow> 'a word \<Rightarrow> 'a word list" where
  "word_range_incl a b = map word_of_nat [unat a ..< Suc (unat b)]"

lemma map_unat_word_range: "map unat (word_range a b) = [unat a ..< unat b]"
  "map unat (word_range_incl a b) = [unat a ..< Suc (unat b)]"
  for a b :: "'a::len word"
proof -
  have "unat (word_of_nat n :: 'a word) = n" if "n \<le> unat b" for n
  proof -
    have "n < 2 ^ LENGTH('a)" using that unat_lt_exp [of b] by linarith
    then show ?thesis by (simp add: unat_of_nat)
  qed
  then show "map unat (word_range a b) = [unat a ..< unat b]"
    "map unat (word_range_incl a b) = [unat a ..< Suc (unat b)]"
    by (auto simp: word_range_def word_range_incl_def intro!: map_idI)
qed

lemma set_word_range_incl: "set (word_range_incl a b) = {x. a \<le> x \<and> x \<le> b}"
  for a b :: "'a::len word"
proof -
  have "unat ` set (word_range_incl a b) = {unat a ..< Suc (unat b)}"
    using map_unat_word_range(2) [of a b] by (metis list.set_map set_upt)
  then have "x \<in> set (word_range_incl a b) \<longleftrightarrow> unat a \<le> unat x \<and> unat x \<le> unat b" for x
    by (metis (no_types, lifting) atLeastLessThan_iff image_iff less_Suc_eq_le word_unat_eq_iff)
  then show ?thesis by (auto simp: word_le_nat_alt)
qed

section \<open>Searching in text\<close>

text \<open>\<open>str::find\<close>: the first position at which the pattern occurs.\<close>

fun starts_with :: "string \<Rightarrow> string \<Rightarrow> bool" where
  "starts_with [] text = True"
| "starts_with (p # ps) [] = False"
| "starts_with (p # ps) (c # cs) \<longleftrightarrow> p = c \<and> starts_with ps cs"

fun str_find :: "string \<Rightarrow> string \<Rightarrow> nat option" where
  "str_find pat [] = (if pat = [] then Some 0 else None)"
| "str_find pat (c # cs) = (if starts_with pat (c # cs) then Some 0 else map_option Suc (str_find pat cs))"

text \<open>\<open>str_find\<close> returns the first occurrence.\<close>

lemma starts_with_iff: "starts_with pat str \<longleftrightarrow> take (length pat) str = pat"
  by (induction pat str rule: starts_with.induct) auto

lemma str_find_Some:
  "str_find pat str = Some i \<longleftrightarrow> i \<le> length str \<and> take (length pat) (drop i str) = pat \<and>
     (\<forall>j < i. take (length pat) (drop j str) \<noteq> pat)"
proof (induction str arbitrary: i)
  case Nil
  then show ?case by (auto split: if_splits)
next
  case (Cons c cs)
  show ?case
  proof (cases "take (length pat) (c # cs) = pat")
    case True
    then show ?thesis by (cases i) (auto simp: starts_with_iff)
  next
    case False
    then show ?thesis using Cons.IH by (cases i) (auto simp: starts_with_iff All_less_Suc2)
  qed
qed

lemma str_find_None: "str_find pat str = None \<longleftrightarrow> (\<forall>i \<le> length str. take (length pat) (drop i str) \<noteq> pat)"
proof (induction str)
  case (Cons c cs)
  have "(\<forall>i \<le> length (c # cs). take (length pat) (drop i (c # cs)) \<noteq> pat) \<longleftrightarrow>
      take (length pat) (c # cs) \<noteq> pat \<and> (\<forall>i \<le> length cs. take (length pat) (drop i cs) \<noteq> pat)"
    by (simp add: less_Suc_eq_le [symmetric] All_less_Suc2)
  then show ?case using Cons by (simp add: starts_with_iff)
qed auto

lemma str_find_occurs: "str_find pat (pre @ pat @ post) \<noteq> None"
proof
  assume "str_find pat (pre @ pat @ post) = None"
  moreover have "take (length pat) (drop (length pre) (pre @ pat @ post)) = pat" by simp
  ultimately show False unfolding str_find_None by (metis length_append le_add1)
qed

end
