(* ===== verification/U256.thy ===== *)
theory U256
  imports Prelude
begin

text \<open>
  The 256-bit unsigned integer of \<^verbatim>\<open>btc-types/src/u256.rs\<close>: a pair of 128-bit halves with the
  derived lexicographic order and hand-written shifts, addition, subtraction, multiplication by a
  64-bit factor and bitwise long division. The natural number a value stands for is \<open>val\<close>; the
  \<open>u256_simps\<close> lemmas say what each operation does to it.
\<close>

unbundle bit_operations_syntax

section \<open>The type and its order\<close>

datatype u256 = U256 (hi: u128) (lo: u128)

instantiation u256 :: linorder
begin

definition less_eq_u256 :: "u256 \<Rightarrow> u256 \<Rightarrow> bool" where
  "less_eq_u256 x y \<longleftrightarrow> hi x < hi y \<or> (hi x = hi y \<and> lo x \<le> lo y)"

definition less_u256 :: "u256 \<Rightarrow> u256 \<Rightarrow> bool" where
  "less_u256 x y \<longleftrightarrow> hi x < hi y \<or> (hi x = hi y \<and> lo x < lo y)"

instance
  by intro_classes
     (auto simp: less_eq_u256_def less_u256_def intro: u256.expand)

end

definition u256_MAX :: u256 where "u256_MAX = U256 (- 1) (- 1)"
definition u256_ZERO :: u256 where "u256_ZERO = U256 0 0"
definition u256_ONE :: u256 where "u256_ONE = U256 0 1"

definition u256_from :: "u128 \<Rightarrow> u256" where
  "u256_from x = U256 0 x"

definition is_zero :: "u256 \<Rightarrow> bool" where "is_zero x \<longleftrightarrow> hi x = 0 \<and> lo x = 0"
definition is_one :: "u256 \<Rightarrow> bool" where "is_one x \<longleftrightarrow> hi x = 0 \<and> lo x = 1"
definition is_max :: "u256 \<Rightarrow> bool" where "is_max x \<longleftrightarrow> hi x = - 1 \<and> lo x = - 1"

section \<open>Conversions from and to bytes\<close>

definition split_in_half :: "u8 list \<Rightarrow> u8 list \<times> u8 list" where
  "split_in_half a = (take 16 a, drop 16 a)"

definition u256_from_be_bytes :: "u8 list \<Rightarrow> u256" where
  "u256_from_be_bytes a = (let (high, low) = split_in_half a
     in U256 (from_be_bytes_w high) (from_be_bytes_w low))"

definition u256_from_le_bytes :: "u8 list \<Rightarrow> u256" where
  "u256_from_le_bytes a = (let (high, low) = split_in_half a;
     little = from_le_bytes_w high; big = from_le_bytes_w low
     in U256 big little)"

definition u256_to_be_bytes :: "u256 \<Rightarrow> u8 list" where
  "u256_to_be_bytes x = to_be_bytes_w (hi x) @ to_be_bytes_w (lo x)"

section \<open>Arithmetic\<close>

text \<open>\<open>u128::leading_zeros\<close>, through the number of significant bits.\<close>

fun bit_len :: "nat \<Rightarrow> nat" where
  "bit_len n = (if n = 0 then 0 else Suc (bit_len (n div 2)))"

definition leading_zeros :: "u128 \<Rightarrow> u32" where
  "leading_zeros w = word_of_nat (128 - bit_len (unat w))"

definition u256_bits :: "u256 \<Rightarrow> u32" where
  "u256_bits x = (if hi x > 0 then 256 - leading_zeros (hi x) else 128 - leading_zeros (lo x))"

definition u256_overflowing_add :: "u256 \<Rightarrow> u256 \<Rightarrow> u256 \<times> bool" where
  "u256_overflowing_add x y =
     (let (high, overflow) = overflowing_add_w (hi x) (hi y);
          (low, overflow_low) = overflowing_add_w (lo x) (lo y)
      in if overflow_low
         then let (high', overflow') = overflowing_add_w high 1
              in (U256 high' low, overflow \<or> overflow')
         else (U256 high low, overflow))"

definition u256_wrapping_add :: "u256 \<Rightarrow> u256 \<Rightarrow> u256" where
  "u256_wrapping_add x y = fst (u256_overflowing_add x y)"

definition u256_not :: "u256 \<Rightarrow> u256" where
  "u256_not x = U256 (NOT (hi x)) (NOT (lo x))"

definition u256_overflowing_sub :: "u256 \<Rightarrow> u256 \<Rightarrow> u256 \<times> bool" where
  "u256_overflowing_sub x y =
     (u256_wrapping_add (u256_wrapping_add x (u256_not y)) u256_ONE, y > x)"

definition u256_wrapping_sub :: "u256 \<Rightarrow> u256 \<Rightarrow> u256" where
  "u256_wrapping_sub x y = fst (u256_overflowing_sub x y)"

definition u256_wrapping_inc :: "u256 \<Rightarrow> u256" where
  "u256_wrapping_inc x =
     (let low = lo x + 1 in if low = 0 then U256 (hi x + 1) low else U256 (hi x) low)"

definition u256_overflowing_mul :: "u256 \<Rightarrow> u64 \<Rightarrow> u256 \<times> bool" where
  "u256_overflowing_mul x rhs =
     (let (high, overflow) = overflowing_mul_w (hi x) (ucast rhs);
          (low, overflow_low) = overflowing_mul_w (lo x) (ucast rhs)
      in if \<not> overflow_low then (U256 high low, overflow)
         else let carry = drop_bit 64 (drop_bit 64 (lo x) * ucast rhs);
                  (high', overflow_add) = overflowing_add_w high carry
              in (U256 high' low, overflow \<or> overflow_add))"

section \<open>Shifts\<close>

text \<open>
  \<open>u128::wrapping_shr\<close> and \<open>wrapping_shl\<close> mask the distance to seven bits; the plain \<open><<\<close> and
  \<open>>>\<close> of the source are applied to \<open>shift % 128\<close> only. The two \<open>+=\<close> never overflow
  (\<open>shl_add_no_overflow\<close>, \<open>shr_add_no_overflow\<close> below).
\<close>

definition u128_wrapping_shr :: "u128 \<Rightarrow> u32 \<Rightarrow> u128" where
  "u128_wrapping_shr w n = drop_bit (unat (n AND 127)) w"

definition u128_wrapping_shl :: "u128 \<Rightarrow> u32 \<Rightarrow> u128" where
  "u128_wrapping_shl w n = push_bit (unat (n AND 127)) w"

definition u256_wrapping_shl :: "u256 \<Rightarrow> u32 \<Rightarrow> u256" where
  "u256_wrapping_shl x rhs =
     (let shift = rhs AND 0xff; word_shift = (shift \<ge> 128); bit_shift = shift mod 128
      in if word_shift then U256 (push_bit (unat bit_shift) (lo x)) 0
         else U256 (push_bit (unat bit_shift) (hi x) +
                      (if bit_shift > 0 then u128_wrapping_shr (lo x) (128 - bit_shift) else 0))
                   (push_bit (unat bit_shift) (lo x)))"

definition u256_wrapping_shr :: "u256 \<Rightarrow> u32 \<Rightarrow> u256" where
  "u256_wrapping_shr x rhs =
     (let shift = rhs AND 0xff; word_shift = (shift \<ge> 128); bit_shift = shift mod 128
      in if word_shift then U256 0 (drop_bit (unat bit_shift) (hi x))
         else U256 (drop_bit (unat bit_shift) (hi x))
                   (drop_bit (unat bit_shift) (lo x) +
                      (if bit_shift > 0 then u128_wrapping_shl (hi x) (128 - bit_shift) else 0)))"

section \<open>Long division\<close>

text \<open>
  The loop of \<open>div_rem\<close> counts \<open>shift\<close> down to 0; \<open>ret\<close> is the pair \<open>(ret[0], ret[1])\<close>.
\<close>

definition set_quotient_bit :: "nat \<Rightarrow> u128 \<times> u128 \<Rightarrow> u128 \<times> u128" where
  "set_quotient_bit shift ret =
     (if 1 - shift div 128 = 0 then (fst ret OR push_bit (shift mod 128) 1, snd ret)
      else (fst ret, snd ret OR push_bit (shift mod 128) 1))"

fun div_rem_loop :: "nat \<Rightarrow> u256 \<Rightarrow> u256 \<Rightarrow> u128 \<times> u128 \<Rightarrow> u256 \<times> u256" where
  "div_rem_loop shift sub_copy shift_copy ret =
     (let (ret', sub_copy') =
            (if sub_copy \<ge> shift_copy
             then (set_quotient_bit shift ret, u256_wrapping_sub sub_copy shift_copy)
             else (ret, sub_copy));
          shift_copy' = u256_wrapping_shr shift_copy 1
      in case shift of 0 \<Rightarrow> (U256 (fst ret') (snd ret'), sub_copy')
         | Suc s \<Rightarrow> div_rem_loop s sub_copy' shift_copy' ret')"

declare div_rem_loop.simps [simp del]

definition u256_div_rem :: "u256 \<Rightarrow> u256 \<Rightarrow> (u256 \<times> u256) result" where
  "u256_div_rem self rhs =
     (let my_bits = u256_bits self; your_bits = u256_bits rhs
      in if your_bits = 0 then Inl AssertFailed
         else if my_bits < your_bits then Inr (u256_ZERO, self)
         else let shift = my_bits - your_bits
              in Inr (div_rem_loop (unat shift) self (u256_wrapping_shl rhs shift) (0, 0)))"

definition u256_div :: "u256 \<Rightarrow> u256 \<Rightarrow> u256 result" where
  "u256_div x y = rbind (u256_div_rem x y) (\<lambda>qr. Inr (fst qr))"

definition u256_rem :: "u256 \<Rightarrow> u256 \<Rightarrow> u256 result" where
  "u256_rem x y = rbind (u256_div_rem x y) (\<lambda>qr. Inr (snd qr))"

definition u256_inverse :: "u256 \<Rightarrow> u256 result" where
  "u256_inverse x =
     (if is_zero x then Inr u256_MAX
      else if is_one x then Inr u256_MAX
      else if is_max x then Inr u256_ONE
      else rbind (u256_div (u256_not x) (u256_wrapping_inc x)) (\<lambda>ret. Inr (u256_wrapping_inc ret)))"

section \<open>The value of a U256\<close>

abbreviation B128 :: nat where "B128 \<equiv> 2 ^ 128"
abbreviation B256 :: nat where "B256 \<equiv> 2 ^ 256"

definition val :: "u256 \<Rightarrow> nat" where
  "val x = unat (hi x) * B128 + unat (lo x)"

lemma B256_eq: "B256 = B128 * B128" by simp

lemma unat_u128_less: "unat (w :: u128) < B128"
  using unat_lt_exp [of w] by simp

lemma val_less: "val x < B256"
proof -
  have "unat (hi x) * B128 + unat (lo x) < Suc (unat (hi x)) * B128"
    using unat_u128_less [of "lo x"] by simp
  also have "\<dots> \<le> B128 * B128"
    using unat_u128_less [of "hi x"] by (intro mult_le_mono1) simp
  finally show ?thesis unfolding val_def B256_eq .
qed

lemma val_div: "val x div B128 = unat (hi x)" and val_mod: "val x mod B128 = unat (lo x)"
  using unat_u128_less [of "lo x"] by (simp_all add: val_def del: power_numeral)

lemma val_inject: "val x = val y \<longleftrightarrow> x = y"
proof
  assume eq: "val x = val y"
  have "hi x = hi y" using val_div [of x] val_div [of y] eq by (simp add: word_unat_eq_iff)
  moreover have "lo x = lo y" using val_mod [of x] val_mod [of y] eq by (simp add: word_unat_eq_iff)
  ultimately show "x = y" by (rule u256.expand [OF conjI])
qed simp

lemma val_le: "x \<le> y \<longleftrightarrow> val x \<le> val y"
proof (cases "unat (hi x)" "unat (hi y)" rule: linorder_cases)
  case less
  then have "Suc (unat (hi x)) * B128 \<le> unat (hi y) * B128" by (intro mult_le_mono1) simp
  then have "val x \<le> val y" using unat_u128_less [of "lo x"] by (simp add: val_def)
  with less show ?thesis by (simp add: less_eq_u256_def word_less_nat_alt)
next
  case equal
  then show ?thesis by (auto simp: less_eq_u256_def val_def word_less_nat_alt word_le_nat_alt word_unat_eq_iff)
next
  case greater
  then have "Suc (unat (hi y)) * B128 \<le> unat (hi x) * B128" by (intro mult_le_mono1) simp
  then have "\<not> val x \<le> val y" using unat_u128_less [of "lo y"] by (simp add: val_def)
  with greater show ?thesis by (auto simp: less_eq_u256_def word_less_nat_alt word_unat_eq_iff)
qed

lemma val_lt: "x < y \<longleftrightarrow> val x < val y"
  using val_le [of y x] by (simp add: not_le [symmetric])

lemma val_consts [u256_simps]:
  "val u256_ZERO = 0" "val u256_ONE = 1" "val u256_MAX = B256 - 1" "val (u256_from w) = unat w"
  by (simp_all add: val_def u256_ZERO_def u256_ONE_def u256_MAX_def u256_from_def unsigned_minus_1_eq_mask mask_eq_exp_minus_1)

lemma is_iff [u256_simps]:
  "is_zero x \<longleftrightarrow> val x = 0" "is_one x \<longleftrightarrow> val x = 1" "is_max x \<longleftrightarrow> val x = B256 - 1"
proof -
  have "is_zero x \<longleftrightarrow> x = u256_ZERO" "is_one x \<longleftrightarrow> x = u256_ONE" "is_max x \<longleftrightarrow> x = u256_MAX"
    by (auto simp: is_zero_def is_one_def is_max_def u256_ZERO_def u256_ONE_def u256_MAX_def
        intro: u256.expand)
  then show "is_zero x \<longleftrightarrow> val x = 0" "is_one x \<longleftrightarrow> val x = 1" "is_max x \<longleftrightarrow> val x = B256 - 1"
    using val_inject [of x u256_ZERO] val_inject [of x u256_ONE] val_inject [of x u256_MAX]
    by (simp_all add: val_consts)
qed

section \<open>Addition, subtraction, increment, complement\<close>

text \<open>Recombining two halves in base \<open>b\<close>.\<close>

lemma mod_halves:
  assumes "0 < (b :: nat)"
  shows "(h * b + l) mod (b * b) = ((h + l div b) mod b) * b + l mod b"
  using assms by (simp add: mod_mult2_eq mult.commute)

lemma overflow_halves:
  assumes "0 < (b :: nat)"
  shows "b * b \<le> h * b + l \<longleftrightarrow> b \<le> h + l div b"
proof -
  have "b \<le> (h * b + l) div b \<longleftrightarrow> b * b \<le> h * b + l"
    using assms by (rule less_eq_div_iff_mult_less_eq)
  then show ?thesis using assms by simp
qed

lemma val_overflowing_add:
  "val (fst (u256_overflowing_add x y)) = (val x + val y) mod B256"
  "snd (u256_overflowing_add x y) \<longleftrightarrow> B256 \<le> val x + val y"
proof -
  define b where "b = B128"
  define h where "h = unat (hi x) + unat (hi y)"
  define l where "l = unat (lo x) + unat (lo y)"
  have b: "0 < b" and less: "unat (hi x) < b" "unat (hi y) < b" "unat (lo x) < b" "unat (lo y) < b"
    unfolding b_def by (simp, (rule unat_u128_less)+)
  have num: "(340282366920938463463374607431768211456 :: nat) = b" by (simp add: b_def)
  have sum: "val x + val y = h * b + l" by (simp add: val_def h_def l_def b_def algebra_simps)
  have B: "B256 = b * b" by (simp add: b_def)
  have u: "unat (v + w) = (unat v + unat w) mod b" for v w :: u128
    by (simp add: unat_word_ariths b_def)
  have val: "val (U256 v w) = unat v * b + unat w" for v w by (simp add: val_def b_def)
  have carry: "l div b = (if b \<le> l then 1 else 0)"
    using less by (auto simp: l_def div_nat_eqI)
  have one: "unat (1 :: u128) = 1" by simp
  show "val (fst (u256_overflowing_add x y)) = (val x + val y) mod B256"
    unfolding sum B mod_halves [OF b] carry
    by (auto simp: u256_overflowing_add_def overflowing_add_w_def val u h_def [symmetric]
        l_def [symmetric] num mod_simps)
  have "b \<le> h \<or> b \<le> h mod b + 1 \<longleftrightarrow> b \<le> h + 1" using b by (cases "b \<le> h") auto
  then show "snd (u256_overflowing_add x y) \<longleftrightarrow> B256 \<le> val x + val y"
    unfolding sum B overflow_halves [OF b] carry
    by (auto simp: u256_overflowing_add_def overflowing_add_w_def u h_def [symmetric]
        l_def [symmetric] num)
qed

lemma u256_overflowing_add_eq:
  "u256_overflowing_add x y = (z, False) \<longleftrightarrow> val z = val x + val y"
proof
  assume "u256_overflowing_add x y = (z, False)"
  with val_overflowing_add [of x y] show "val z = val x + val y" by simp
next
  assume z: "val z = val x + val y"
  with val_less [of z] have "\<not> snd (u256_overflowing_add x y)"
    by (simp add: val_overflowing_add(2))
  moreover from z val_less [of z] have "fst (u256_overflowing_add x y) = z"
    by (simp add: val_overflowing_add(1) val_inject [symmetric])
  ultimately show "u256_overflowing_add x y = (z, False)" by (simp add: prod_eq_iff)
qed

lemma val_wrapping_add [u256_simps]: "val (u256_wrapping_add x y) = (val x + val y) mod B256"
  by (simp add: u256_wrapping_add_def val_overflowing_add)

lemma unat_not_u128: "unat (NOT w :: u128) = B128 - 1 - unat w"
proof -
  have "NOT w = - 1 - w" by (simp add: not_eq_complement)
  moreover have "unat (- 1 - w) = unat (- 1 :: u128) - unat w" by (rule unat_sub) simp
  ultimately show ?thesis by (simp add: unsigned_minus_1_eq_mask mask_eq_exp_minus_1)
qed

lemma val_not [u256_simps]: "val (u256_not x) = B256 - 1 - val x"
proof -
  have "val (u256_not x) + val x = B256 - 1"
    using unat_u128_less [of "hi x"] unat_u128_less [of "lo x"]
    by (simp add: val_def u256_not_def unat_not_u128 diff_mult_distrib)
  then show ?thesis by simp
qed

lemma val_wrapping_sub [u256_simps]: "y \<le> x \<Longrightarrow> val (u256_wrapping_sub x y) = val x - val y"
proof -
  assume "y \<le> x"
  then have le: "val y \<le> val x" by (simp add: val_le)
  have "val (u256_wrapping_sub x y) = ((val x + (B256 - 1 - val y)) mod B256 + 1) mod B256"
    by (simp add: u256_wrapping_sub_def u256_overflowing_sub_def u256_simps)
  also have "\<dots> = (val x + (B256 - 1 - val y) + 1) mod B256" by (rule mod_add_left_eq)
  also have "val x + (B256 - 1 - val y) + 1 = (val x - val y) + B256"
    using le val_less [of y] by simp
  finally show ?thesis using val_less [of x] by simp
qed

lemma val_wrapping_inc [u256_simps]: "val (u256_wrapping_inc x) = (val x + 1) mod B256"
proof -
  define b where "b = B128"
  have b: "0 < b" and less: "unat (lo x) < b"
    unfolding b_def by (simp, rule unat_u128_less)
  have num: "(340282366920938463463374607431768211456 :: nat) = b" by (simp add: b_def)
  have u: "unat (v + 1) = (unat v + 1) mod b" for v :: u128
    by (simp add: unat_word_ariths b_def)
  have B: "B256 = b * b" by (simp add: b_def)
  have carry: "(unat (lo x) + 1) div b = (if unat (lo x) + 1 = b then 1 else 0)"
    using less b by (auto simp: div_nat_eqI)
  have zero: "lo x + 1 = 0 \<longleftrightarrow> unat (lo x) + 1 = b"
  proof -
    have "lo x + 1 = 0 \<longleftrightarrow> (unat (lo x) + 1) mod b = 0"
      by (simp add: word_unat_eq_iff u)
    also have "\<dots> \<longleftrightarrow> unat (lo x) + 1 = b" using less
      by (cases "unat (lo x) + 1 = b") auto
    finally show ?thesis .
  qed
  have x1: "val x + 1 = unat (hi x) * b + (unat (lo x) + 1)" by (simp add: val_def b_def)
  have "(val x + 1) mod B256 =
      ((unat (hi x) + (unat (lo x) + 1) div b) mod b) * b + (unat (lo x) + 1) mod b"
    unfolding B x1 by (rule mod_halves [OF b])
  moreover have "unat (hi x) mod b = unat (hi x)" using unat_u128_less by (simp add: b_def)
  ultimately show ?thesis
    unfolding carry
    by (auto simp: u256_wrapping_inc_def Let_def zero val_def u num)
qed

section \<open>Bit length\<close>

declare bit_len.simps [simp del]

lemma bit_len_0 [simp]: "bit_len 0 = 0"
  by (simp add: bit_len.simps)

lemma bit_len_le: "bit_len n \<le> k \<longleftrightarrow> n < 2 ^ k"
proof (induction n arbitrary: k rule: bit_len.induct)
  case (1 n)
  show ?case
  proof (cases "n = 0")
    case True
    then show ?thesis by simp
  next
    case n: False
    show ?thesis
    proof (cases k)
      case 0
      with n show ?thesis by (simp add: bit_len.simps [of n])
    next
      case (Suc j)
      with n 1 [OF n, of j] show ?thesis by (auto simp: bit_len.simps [of n])
    qed
  qed
qed

lemma bit_len_upper: "n < 2 ^ bit_len n"
  using bit_len_le [of n "bit_len n"] by simp

lemma bit_len_lower: "0 < n \<Longrightarrow> 2 ^ (bit_len n - 1) \<le> n"
  using bit_len_le [of n "bit_len n - 1"] bit_len_le [of n 0] by (cases "bit_len n") auto

lemma bit_len_eqI: "(\<And>m. n < 2 ^ m \<longleftrightarrow> k \<le> m) \<Longrightarrow> bit_len n = k"
  by (meson bit_len_le order_antisym order_refl)

lemma bit_len_eq_0 [simp]: "bit_len n = 0 \<longleftrightarrow> n = 0"
  using bit_len_le [of n 0] by simp

lemma bit_len_shift: "0 < h \<Longrightarrow> l < 2 ^ k \<Longrightarrow> bit_len (h * 2 ^ k + l) = k + bit_len h"
proof (rule bit_len_eqI)
  fix m assume h: "0 < h" and l: "l < (2 :: nat) ^ k"
  show "h * 2 ^ k + l < 2 ^ m \<longleftrightarrow> k + bit_len h \<le> m"
  proof (cases "k \<le> m")
    case True
    have "h * 2 ^ k + l < 2 ^ (m - k) * 2 ^ k \<longleftrightarrow> h < 2 ^ (m - k)"
    proof
      assume "h * 2 ^ k + l < 2 ^ (m - k) * 2 ^ k"
      then have "h * 2 ^ k < 2 ^ (m - k) * 2 ^ k" by linarith
      then show "h < 2 ^ (m - k)" by simp
    next
      assume "h < 2 ^ (m - k)"
      then have "Suc h * 2 ^ k \<le> 2 ^ (m - k) * 2 ^ k" by (intro mult_le_mono1) simp
      with l show "h * 2 ^ k + l < 2 ^ (m - k) * 2 ^ k" by simp
    qed
    with True show ?thesis by (simp add: power_add [symmetric] bit_len_le [symmetric]) linarith
  next
    case False
    then have "(2 :: nat) ^ m \<le> 2 ^ k" by simp
    moreover have "2 ^ k \<le> h * 2 ^ k + l" using h by (cases h) auto
    ultimately have "\<not> h * 2 ^ k + l < 2 ^ m" by linarith
    with False show ?thesis by simp
  qed
qed

lemma bit_len_mono: "m \<le> n \<Longrightarrow> bit_len m \<le> bit_len n"
  using bit_len_upper [of n] by (simp add: bit_len_le)

lemma unat_leading_zeros: "unat (leading_zeros w) = 128 - bit_len (unat w)"
  by (simp add: leading_zeros_def unat_of_nat)

lemma unat_u256_bits [u256_simps]: "unat (u256_bits x) = bit_len (val x)"
proof -
  have len: "bit_len (unat w) \<le> 128" for w :: u128
    using unat_u128_less [of w] by (simp add: bit_len_le)
  have sub: "unat (c - leading_zeros w) = unat c - (128 - bit_len (unat w))"
    if "128 \<le> unat c" for c w
    using that by (subst unat_sub) (auto simp: word_le_nat_alt unat_leading_zeros)
  show ?thesis
  proof (cases "hi x > 0")
    case True
    then have "0 < unat (hi x)" by (simp add: word_less_nat_alt)
    from bit_len_shift [OF this unat_u128_less [of "lo x"]]
    have "bit_len (val x) = 128 + bit_len (unat (hi x))" by (simp add: val_def)
    with True len [of "hi x"] show ?thesis by (simp add: u256_bits_def sub)
  next
    case False
    then have "hi x = 0" by (simp add: word_gt_0)
    with len [of "lo x"] show ?thesis by (simp add: u256_bits_def sub val_def)
  qed
qed

section \<open>Shifts\<close>

lemma unat_and_255: "unat (n AND 0xff :: u32) = unat n mod 256"
proof -
  have "n AND 0xff = take_bit 8 n" by (simp add: take_bit_eq_mask mask_eq_exp_minus_1)
  then show ?thesis by (simp only: unsigned_take_bit_eq) (simp add: take_bit_eq_mod)
qed

lemma unat_and_127: "unat (n AND 127 :: u32) = unat n mod 128"
proof -
  have "n AND 127 = take_bit 7 n" by (simp add: take_bit_eq_mask mask_eq_exp_minus_1)
  then show ?thesis by (simp only: unsigned_take_bit_eq) (simp add: take_bit_eq_mod)
qed

lemma unat_push_u128: "unat (push_bit n w :: u128) = (unat w * 2 ^ n) mod B128"
  by (simp only: unsigned_push_bit_eq) (simp add: take_bit_eq_mod push_bit_eq_mult)

lemma unat_drop_u128: "unat (drop_bit n w :: u128) = unat w div 2 ^ n"
  by (simp only: unat_drop_bit_eq) (simp add: drop_bit_eq_div)

text \<open>The high part of a left shift by less than 128 is a multiple of \<open>2 ^ s\<close>, so adding the
  \<open>s\<close> bits that come from the low half does not overflow; dually for the right shift.\<close>

lemma shl_add_no_overflow:
  assumes "s < 128"
  shows "unat (push_bit s h + drop_bit (128 - s) l :: u128) =
    (unat h * 2 ^ s) mod B128 + unat l div 2 ^ (128 - s)"
proof -
  have split: "B128 = 2 ^ (128 - s) * 2 ^ s" using assms by (simp add: power_add [symmetric])
  have "(unat h * 2 ^ s) mod B128 = (unat h mod 2 ^ (128 - s)) * 2 ^ s"
    unfolding split by (rule mod_mult_mult2)
  also have "\<dots> \<le> (2 ^ (128 - s) - 1) * 2 ^ s"
    by (intro mult_le_mono1) (simp add: less_eq_iff_succ_less le_simps(3) mask_nat_less_exp)
  finally have high: "(unat h * 2 ^ s) mod B128 \<le> B128 - 2 ^ s"
    unfolding split by (simp add: diff_mult_distrib)
  have "unat l < 2 ^ (128 - s) * 2 ^ s" using unat_u128_less [of l] split by simp
  then have "unat l div 2 ^ (128 - s) < 2 ^ s" by (simp add: less_mult_imp_div_less mult.commute)
  moreover have "(2 :: nat) ^ s \<le> B128" using assms by (intro power_increasing) auto
  ultimately have "(unat h * 2 ^ s) mod B128 + unat l div 2 ^ (128 - s) < B128"
    using high by linarith
  then show ?thesis by (simp add: unat_word_ariths unat_push_u128 unat_drop_u128)
qed

lemma shr_add_no_overflow:
  assumes "0 < s" "s < 128"
  shows "unat (drop_bit s l + push_bit (128 - s) h :: u128) =
    (unat h * 2 ^ (128 - s)) mod B128 + unat l div 2 ^ s"
  using shl_add_no_overflow [of "128 - s" h l] assms by (simp add: add.commute)

text \<open>The shift distances of the two routines, as numbers.\<close>

lemma shift_parts:
  fixes rhs :: u32
  defines "s \<equiv> unat rhs mod 256"
  shows "rhs AND 0xff \<ge> 128 \<longleftrightarrow> 128 \<le> s"
    and "unat ((rhs AND 0xff) mod 128) = s mod 128"
    and "(rhs AND 0xff) mod 128 > 0 \<longleftrightarrow> s mod 128 \<noteq> 0"
    and "s mod 128 \<noteq> 0 \<Longrightarrow> unat ((128 - (rhs AND 0xff) mod 128) AND 127) = 128 - s mod 128"
proof -
  show a: "rhs AND 0xff \<ge> 128 \<longleftrightarrow> 128 \<le> s"
    by (simp add: word_le_nat_alt unat_and_255 s_def)
  show b: "unat ((rhs AND 0xff) mod 128) = s mod 128"
    by (simp add: unat_mod_distrib unat_and_255 s_def)
  show "(rhs AND 0xff) mod 128 > 0 \<longleftrightarrow> s mod 128 \<noteq> 0"
    by (simp add: word_less_nat_alt b)
  assume nz: "s mod 128 \<noteq> 0"
  have "unat (128 - (rhs AND 0xff) mod 128) = 128 - s mod 128"
    by (subst unat_sub) (simp_all add: word_le_nat_alt b)
  with nz show "unat ((128 - (rhs AND 0xff) mod 128) AND 127) = 128 - s mod 128"
    by (simp add: unat_and_127)
qed

lemma shl_halves:
  assumes "s < 128" and that: "l < B128"
  shows "((h * 2 ^ s) mod B128 + l div 2 ^ (128 - s)) * B128 + (l * 2 ^ s) mod B128 =
    ((h * B128 + l) * 2 ^ s) mod B256"
proof -
  define b where "b = B128"
  have split: "b = 2 ^ s * 2 ^ (128 - s)" using assms by (simp add: b_def power_add [symmetric])
  have carry: "l * 2 ^ s div b = l div 2 ^ (128 - s)"
    unfolding split by (simp add: mult.commute [of l] )
  have b0: "0 < b" by (simp add: b_def)
  have less: "(h * 2 ^ s) mod b + l div 2 ^ (128 - s) < b"
  proof -
    have "unat (word_of_nat h :: u128) = h mod b" by (simp add: unat_of_nat b_def)
    moreover have "unat (word_of_nat l :: u128) = l" using that by (simp add: unat_of_nat)
    ultimately have "(h mod b * 2 ^ s) mod b + l div 2 ^ (128 - s) < b"
      using shl_add_no_overflow [OF assms(1), of "word_of_nat h" "word_of_nat l"]
        unat_u128_less [of "push_bit s (word_of_nat h) + drop_bit (128 - s) (word_of_nat l)"]
      by (simp add: b_def)
    then show ?thesis by (simp add: mod_mult_left_eq)
  qed
  have "(h * b + l) * 2 ^ s = h * 2 ^ s * b + l * 2 ^ s" by (simp add: algebra_simps)
  then have "((h * b + l) * 2 ^ s) mod (b * b) =
      ((h * 2 ^ s + l div 2 ^ (128 - s)) mod b) * b + (l * 2 ^ s) mod b"
    using mod_halves [OF b0, of "h * 2 ^ s" "l * 2 ^ s"] by (simp only: carry)
  also have "(h * 2 ^ s + l div 2 ^ (128 - s)) mod b = (h * 2 ^ s) mod b + l div 2 ^ (128 - s)"
    using less by (metis mod_add_left_eq mod_less)
  finally show ?thesis by (simp add: b_def)
qed

lemma val_shl [u256_simps]:
  "val (u256_wrapping_shl x rhs) = (val x * 2 ^ (unat rhs mod 256)) mod B256"
proof -
  define s where "s = unat rhs mod 256"
  note parts = shift_parts [of rhs, folded s_def]
  have s: "s < 256" by (simp add: s_def)
  show ?thesis unfolding s_def [symmetric]
  proof (cases "128 \<le> s")
    case True
    define t where "t = s - 128"
    then have t: "s = 128 + t" "s mod 128 = t" using True s by (auto simp: mod_if)
    have ring: "(h * b + l) * (b * p) = (h * (b * p) + l * p) * b" for h b l p :: nat
      by (simp add: algebra_simps)
    have "val x * 2 ^ s = (unat (hi x) * 2 ^ s + unat (lo x) * 2 ^ t) * B128"
      unfolding val_def t(1) power_add by (rule ring)
    then have "(val x * 2 ^ s) mod B256 =
        ((unat (hi x) * 2 ^ s + unat (lo x) * 2 ^ t) * B128) mod (B128 * B128)"
      by (simp only: B256_eq)
    also have "\<dots> = ((unat (hi x) * 2 ^ s + unat (lo x) * 2 ^ t) mod B128) * B128"
      by (rule mod_mult_mult2)
    also have "(unat (hi x) * 2 ^ s + unat (lo x) * 2 ^ t) mod B128 = (unat (lo x) * 2 ^ t) mod B128"
    proof -
      have "unat (hi x) * 2 ^ s = (unat (hi x) * 2 ^ t) * B128" by (simp add: t(1) power_add)
      then show ?thesis by (simp only: mod_mult_self3)
    qed
    finally show "val (u256_wrapping_shl x rhs) = (val x * 2 ^ s) mod B256"
      using True by (simp add: u256_wrapping_shl_def Let_def parts t(2) val_def unat_push_u128)
  next
    case False
    then have lt: "s < 128" and m: "s mod 128 = s" by auto
    have "unat (push_bit s (hi x) +
        (if (rhs AND 0xff) mod 128 > 0 then u128_wrapping_shr (lo x) (128 - (rhs AND 0xff) mod 128) else 0))
      = (unat (hi x) * 2 ^ s) mod B128 + unat (lo x) div 2 ^ (128 - s)"
    proof (cases "s = 0")
      case True
      then show ?thesis using unat_u128_less [of "lo x"] unat_u128_less [of "hi x"]
        by (simp add: parts m del: power_numeral)
    next
      case False
      then show ?thesis using shl_add_no_overflow [OF lt, of "hi x" "lo x"]
        by (simp add: parts m u128_wrapping_shr_def)
    qed
    then have "val (u256_wrapping_shl x rhs) =
        ((unat (hi x) * 2 ^ s) mod B128 + unat (lo x) div 2 ^ (128 - s)) * B128 +
        (unat (lo x) * 2 ^ s) mod B128"
      using False by (simp only: u256_wrapping_shl_def Let_def parts m val_def unat_push_u128
          if_False u256.sel)
    also have "\<dots> = (val x * 2 ^ s) mod B256"
      using shl_halves [OF lt unat_u128_less] by (simp only: val_def)
    finally show "val (u256_wrapping_shl x rhs) = (val x * 2 ^ s) mod B256" .
  qed
qed

lemma shr_halves:
  assumes "s \<le> 128" "l < B128"
  shows "(h div 2 ^ s) * B128 + ((h * 2 ^ (128 - s)) mod B128 + l div 2 ^ s) = (h * B128 + l) div 2 ^ s"
proof -
  have split: "B128 = 2 ^ (128 - s) * 2 ^ s" using assms by (simp add: power_add [symmetric])
  have "(h * B128 + l) div 2 ^ s = h * 2 ^ (128 - s) + l div 2 ^ s"
    unfolding split by (simp add: mult.assoc [symmetric])
  also have "h * 2 ^ (128 - s) = (h div 2 ^ s) * B128 + (h * 2 ^ (128 - s)) mod B128"
  proof -
    have "h * 2 ^ (128 - s) div B128 = h div 2 ^ s"
      unfolding split by (simp add: mult.commute [of h])
    then show ?thesis by (metis div_mult_mod_eq)
  qed
  finally show ?thesis by simp
qed

lemma val_shr [u256_simps]:
  "val (u256_wrapping_shr x rhs) = val x div 2 ^ (unat rhs mod 256)"
proof -
  define s where "s = unat rhs mod 256"
  note parts = shift_parts [of rhs, folded s_def]
  have s: "s < 256" by (simp add: s_def)
  show ?thesis unfolding s_def [symmetric]
  proof (cases "128 \<le> s")
    case True
    define t where "t = s - 128"
    then have t: "s = 128 + t" "s mod 128 = t" using True s by (auto simp: mod_if)
    have "val x div 2 ^ s = val x div B128 div 2 ^ t" by (simp add: t(1) power_add div_mult2_eq)
    then show "val (u256_wrapping_shr x rhs) = val x div 2 ^ s"
      using True
      by (simp add: u256_wrapping_shr_def Let_def parts t(2) val_def [of "U256 _ _"] val_div
          unat_drop_u128 del: power_numeral)
  next
    case False
    then have lt: "s < 128" and m: "s mod 128 = s" by auto
    have "unat (drop_bit s (lo x) +
        (if (rhs AND 0xff) mod 128 > 0 then u128_wrapping_shl (hi x) (128 - (rhs AND 0xff) mod 128) else 0))
      = (unat (hi x) * 2 ^ (128 - s)) mod B128 + unat (lo x) div 2 ^ s"
    proof (cases "s = 0")
      case True
      then show ?thesis by (simp add: parts m)
    next
      case False
      then show ?thesis using shr_add_no_overflow [of s "lo x" "hi x"] lt
        by (simp add: parts m u128_wrapping_shl_def)
    qed
    then have "val (u256_wrapping_shr x rhs) = (unat (hi x) div 2 ^ s) * B128 +
        ((unat (hi x) * 2 ^ (128 - s)) mod B128 + unat (lo x) div 2 ^ s)"
      using False by (simp only: u256_wrapping_shr_def Let_def parts m val_def unat_drop_u128
          if_False u256.sel)
    also have "\<dots> = val x div 2 ^ s"
      using shr_halves [OF less_imp_le [OF lt] unat_u128_less] by (simp only: val_def)
    finally show "val (u256_wrapping_shr x rhs) = val x div 2 ^ s" .
  qed
qed

section \<open>Long division\<close>

lemma unat_or_bit:
  assumes "k < 128" "2 ^ Suc k dvd unat (w :: u128)"
  shows "unat (w OR push_bit k 1) = unat w + 2 ^ k"
proof -
  from assms(2) obtain c where "unat w = 2 ^ k * (2 * c)" by auto
  then have nb: "\<not> bit (unat w) k" by (simp add: bit_iff_odd)
  have "(2 :: nat) ^ k < B128" using assms(1) by (intro power_strict_increasing) auto
  then have "unat (push_bit k (1 :: u128)) = push_bit k 1"
    by (subst unat_push_u128) (simp add: push_bit_eq_mult)
  then have "unat (w OR push_bit k 1) = unat w OR push_bit k 1"
    by (simp only: unsigned_or_eq)
  also have "\<dots> = set_bit k (unat w)" by (rule set_bit_eq_or [symmetric])
  finally show ?thesis using nb by (simp add: set_bit_eq)
qed

lemma val_set_quotient_bit:
  assumes "shift < 256" "2 ^ Suc shift dvd val (U256 a b)"
  shows "val (case set_quotient_bit shift (a, b) of (a', b') \<Rightarrow> U256 a' b') =
    val (U256 a b) + 2 ^ shift"
proof (cases "shift < 128")
  case True
  then have "2 ^ Suc shift dvd B128" by (intro le_imp_power_dvd) simp
  moreover from this assms(2) have "2 ^ Suc shift dvd val (U256 a b) mod B128"
    by (rule dvd_mod [rotated])
  ultimately have "2 ^ Suc shift dvd unat b" by (simp only: val_mod u256.sel)
  from unat_or_bit [OF True this] True show ?thesis
    by (simp add: set_quotient_bit_def val_def)
next
  case False
  define k where "k = shift - 128"
  then have k: "shift = 128 + k" "k < 128" "shift div 128 = 1" "shift mod 128 = k"
    using False assms(1) by (auto simp: mod_if div_if)
  from assms(2) obtain c where "val (U256 a b) = B128 * (2 ^ Suc k * c)"
    by (auto simp only: k(1) power_add power_Suc dvd_def mult.assoc mult.left_commute add_Suc_right)
  then have "2 ^ Suc k dvd val (U256 a b) div B128" by (simp del: power_numeral)
  then have "2 ^ Suc k dvd unat a" by (simp only: val_div u256.sel)
  from unat_or_bit [OF k(2) this] show ?thesis
    by (simp add: set_quotient_bit_def val_def k power_add)
qed

text \<open>
  Loop invariant of the division by \<open>d\<close>: \<open>shift_copy\<close> stands for \<open>d * 2 ^ shift\<close>, the rest is below
  twice that, and the quotient bits up to \<open>shift\<close> are still clear.
\<close>

lemma div_rem_loop_correct:
  assumes "shift < 256" "0 < d" "val sc = d * 2 ^ shift" "val sub < d * 2 ^ Suc shift"
    and "2 ^ Suc shift dvd val (U256 a b)"
  shows "val (fst (div_rem_loop shift sub sc (a, b))) = val (U256 a b) + val sub div d \<and>
    val (snd (div_rem_loop shift sub sc (a, b))) = val sub mod d"
  using assms(1,3-5)
proof (induction shift arbitrary: sub sc a b)
  case 0
  have set: "val (case set_quotient_bit 0 (a, b) of (a', b') \<Rightarrow> U256 a' b') = val (U256 a b) + 1"
    using val_set_quotient_bit [of 0 a b] 0 by simp
  show ?case
  proof (cases "sc \<le> sub")
    case True
    then have le: "d \<le> val sub" using 0 by (simp add: val_le)
    then have "val sub div d = 1" "val sub mod d = val sub - d"
      using 0 \<open>0 < d\<close> by (simp_all add: div_nat_eqI le_mod_geq)
    with True 0 set show ?thesis
      by (cases "set_quotient_bit 0 (a, b)") (simp add: div_rem_loop.simps [of 0] u256_simps)
  next
    case False
    then have "val sub < d" using 0 by (simp add: val_le)
    with False show ?thesis by (simp add: div_rem_loop.simps [of 0])
  qed
next
  case (Suc s)
  have sc: "val (u256_wrapping_shr sc 1) = d * 2 ^ s" using Suc.prems by (simp add: val_shr)
  show ?case
  proof (cases "sc \<le> sub")
    case True
    obtain a' b' where set: "set_quotient_bit (Suc s) (a, b) = (a', b')" by fastforce
    have q: "val (U256 a' b') = val (U256 a b) + 2 ^ Suc s"
      using val_set_quotient_bit [of "Suc s" a b] Suc.prems set by simp
    have dvd: "2 ^ Suc s dvd val (U256 a' b')"
      unfolding q using Suc.prems(4) by (meson dvd_add dvd_refl le_imp_power_dvd dvd_trans le_SucI order_refl)
    define r where "r = u256_wrapping_sub sub sc"
    have r: "val sub = val r + d * 2 ^ Suc s"
      using True Suc.prems(2) unfolding r_def by (simp add: val_wrapping_sub val_le)
    have "val sub div d = val r div d + 2 ^ Suc s" "val sub mod d = val r mod d"
      unfolding r using \<open>0 < d\<close> by simp_all
    moreover have "val r < d * 2 ^ Suc s" using Suc.prems(3) r by simp
    ultimately show ?thesis
      using Suc.IH [of "u256_wrapping_shr sc 1" r a' b'] Suc.prems(1) sc dvd q True
      by (simp add: div_rem_loop.simps [of "Suc s"] set r_def)
  next
    case False
    then have "val sub < d * 2 ^ Suc s" using Suc.prems(2) by (simp add: val_le)
    moreover have "2 ^ Suc s dvd val (U256 a b)"
      using Suc.prems(4) by (meson dvd_trans le_imp_power_dvd le_SucI order_refl)
    ultimately show ?thesis
      using Suc.IH [of "u256_wrapping_shr sc 1" sub a b] Suc.prems(1) sc False
      by (simp add: div_rem_loop.simps [of "Suc s"])
  qed
qed

lemma bits_eq_0: "u256_bits y = 0 \<longleftrightarrow> val y = 0"
  by (simp add: word_unat_eq_iff unat_u256_bits)

lemma div_rem_loop_start:
  assumes "u256_bits y \<noteq> 0" "u256_bits y \<le> u256_bits x"
  defines "shift \<equiv> u256_bits x - u256_bits y"
  shows "unat shift < 256" "val (u256_wrapping_shl y shift) = val y * 2 ^ unat shift"
    "val x < val y * 2 ^ Suc (unat shift)"
proof -
  define k where "k = bit_len (val x)"
  define j where "j = bit_len (val y)"
  have y: "0 < val y" using assms(1) by (simp add: bits_eq_0)
  have j: "0 < j" using y bit_len_eq_0 [of "val y"] unfolding j_def by linarith
  have k: "k \<le> 256" using val_less [of x] by (simp add: k_def bit_len_le del: power_numeral)
  have le: "j \<le> k" using assms(2) by (simp add: word_le_nat_alt unat_u256_bits j_def k_def)
  have sh: "unat shift = k - j"
    using assms(2) by (simp add: shift_def unat_sub unat_u256_bits j_def k_def)
  show lt: "unat shift < 256" using sh j k le by linarith
  have "val y * 2 ^ (k - j) < 2 ^ j * 2 ^ (k - j)"
    using bit_len_upper [of "val y"] by (simp add: j_def)
  also have "\<dots> = 2 ^ k" using le by (simp add: power_add [symmetric])
  also have "\<dots> \<le> B256" using k by (intro power_increasing) auto
  finally show "val (u256_wrapping_shl y shift) = val y * 2 ^ unat shift"
    using lt by (simp add: val_shl sh)
  have "val x < 2 ^ k" by (simp add: k_def bit_len_upper)
  also have "\<dots> = 2 ^ (j - 1) * 2 ^ Suc (k - j)" using le j by (simp add: power_add [symmetric] del: power_Suc)
  also have "\<dots> \<le> val y * 2 ^ Suc (k - j)"
    using bit_len_lower [OF y] by (intro mult_le_mono1) (simp add: j_def)
  finally show "val x < val y * 2 ^ Suc (unat shift)" by (simp add: sh)
qed

lemma div_rem_correct:
  assumes "val y \<noteq> 0"
  shows "\<exists>q r. u256_div_rem x y = Inr (q, r) \<and> val q = val x div val y \<and> val r = val x mod val y"
proof (cases "u256_bits x < u256_bits y")
  case True
  then have "val x < val y"
    using bit_len_mono [of "val y" "val x"]
    by (simp add: word_less_nat_alt unat_u256_bits) (meson linorder_not_less)
  with True assms show ?thesis by (simp add: u256_div_rem_def bits_eq_0 u256_simps)
next
  case False
  then have le: "u256_bits y \<le> u256_bits x" by simp
  have nz: "u256_bits y \<noteq> 0" using assms by (simp add: bits_eq_0)
  note start = div_rem_loop_start [OF nz le]
  have "val (U256 0 0) = 0" by (simp add: val_def)
  with div_rem_loop_correct [OF start(1) _ start(2,3), of 0 0] assms False nz show ?thesis
    by (simp add: u256_div_rem_def Let_def)
       (metis prod.collapse)
qed

lemma u256_div_Inr [u256_simps]: "u256_div x y = Inr q \<longleftrightarrow> val y \<noteq> 0 \<and> val q = val x div val y"
proof (cases "val y = 0")
  case True
  then show ?thesis by (simp add: u256_div_def u256_div_rem_def bits_eq_0)
next
  case False
  from div_rem_correct [OF this, of x] obtain q' r
    where "u256_div_rem x y = Inr (q', r)" "val q' = val x div val y" by blast
  with False show ?thesis by (auto simp: u256_div_def val_inject [symmetric])
qed

lemma u256_rem_Inr [u256_simps]: "u256_rem x y = Inr r \<longleftrightarrow> val y \<noteq> 0 \<and> val r = val x mod val y"
proof (cases "val y = 0")
  case True
  then show ?thesis by (simp add: u256_rem_def u256_div_rem_def bits_eq_0)
next
  case False
  from div_rem_correct [OF this, of x] obtain q r'
    where "u256_div_rem x y = Inr (q, r')" "val r' = val x mod val y" by blast
  with False show ?thesis by (auto simp: u256_rem_def val_inject [symmetric])
qed

lemma val_inverse:
  "\<exists>y. u256_inverse x = Inr y \<and>
    val y = (if val x \<le> 1 then B256 - 1 else B256 div (val x + 1))"
proof (cases "val x \<le> 1 \<or> val x = B256 - 1")
  case True
  then consider "val x = 0" | "val x = 1" | "val x = B256 - 1" by linarith
  then show ?thesis by cases (simp_all add: u256_inverse_def u256_simps)
next
  case False
  then have x: "1 < val x" "val x + 1 < B256" using val_less [of x] by auto
  have inc: "val (u256_wrapping_inc x) = val x + 1" using x by (simp add: u256_simps del: power_numeral)
  define q where "q = (B256 - 1 - val x) div (val x + 1)"
  have q: "q + 1 = B256 div (val x + 1)"
  proof -
    have "B256 = (B256 - 1 - val x) + (val x + 1)" using val_less [of x] by simp
    then have "B256 div (val x + 1) = ((B256 - 1 - val x) + (val x + 1)) div (val x + 1)" by simp
    also have "\<dots> = q + 1" unfolding q_def by (rule div_add_self2) simp
    finally show ?thesis by simp
  qed
  have "B256 div (val x + 1) < B256" using x by (intro div_less_dividend) auto
  then have wrap: "(q + 1) mod B256 = q + 1" using q by simp
  obtain y where y: "u256_div (u256_not x) (u256_wrapping_inc x) = Inr y" "val y = q"
    using div_rem_correct [of "u256_wrapping_inc x" "u256_not x"]
    unfolding inc val_not q_def u256_div_def by auto
  have "\<not> is_zero x" "\<not> is_one x" "\<not> is_max x" using False by (auto simp: is_iff)
  then have "u256_inverse x = Inr (u256_wrapping_inc y)" by (simp add: u256_inverse_def y)
  moreover have "val (u256_wrapping_inc y) = B256 div (val x + 1)"
    using wrap q by (simp only: val_wrapping_inc y(2))
  ultimately show ?thesis using x by simp
qed

section \<open>Multiplication by a 64-bit factor\<close>

text \<open>
  The carry from the low half into the high half is computed from the upper 64 bits of the low half
  alone: what the lower 64 bits would have added is lost. \<open>lost_carry\<close> is the difference to the
  true carry; it is 0 or 1.
\<close>

definition lost_carry :: "u256 \<Rightarrow> u64 \<Rightarrow> nat" where
  "lost_carry x rhs =
     ((unat (lo x) div 2 ^ 64 * unat rhs) mod 2 ^ 64 + unat (lo x) mod 2 ^ 64 * unat rhs div 2 ^ 64) div 2 ^ 64"

lemma carry_split:
  fixes l r c :: nat
  assumes "0 < c"
  shows "l * r div (c * c) =
    (l div c * r) div c + ((l div c * r) mod c + (l mod c * r) div c) div c"
proof -
  have "l * r = (l div c * r) * c + l mod c * r"
    by (metis div_mult_mod_eq distrib_right mult.commute mult.left_commute)
  then have "l * r div c = l div c * r + l mod c * r div c"
    using assms by simp
  then have "l * r div (c * c) = (l div c * r + l mod c * r div c) div c"
    by (simp add: div_mult2_eq)
  also have "\<dots> = ((l div c * r) div c * c + ((l div c * r) mod c + l mod c * r div c)) div c"
    by (metis add.assoc div_mult_mod_eq)
  also have "\<dots> = (l div c * r) div c + ((l div c * r) mod c + l mod c * r div c) div c"
    by (rule div_mult_self3) (use assms in simp)
  finally show ?thesis .
qed

lemma lost_carry_le_1: "lost_carry x rhs \<le> 1"
proof -
  have "unat rhs < 2 ^ 64" using unat_lt_exp [of rhs] by simp
  then have "unat (lo x) mod 2 ^ 64 * unat rhs < 2 ^ 64 * 2 ^ 64"
    by (intro mult_strict_mono) auto
  then have "unat (lo x) mod 2 ^ 64 * unat rhs div 2 ^ 64 < 2 ^ 64"
    by (rule less_mult_imp_div_less)
  moreover have "(unat (lo x) div 2 ^ 64 * unat rhs) mod 2 ^ 64 < 2 ^ 64" by simp
  ultimately have "(unat (lo x) div 2 ^ 64 * unat rhs) mod 2 ^ 64 +
      unat (lo x) mod 2 ^ 64 * unat rhs div 2 ^ 64 < 2 * 2 ^ 64" by linarith
  then have "lost_carry x rhs < 2" unfolding lost_carry_def by (rule less_mult_imp_div_less)
  then show ?thesis by simp
qed

lemma unat_ucast_u64: "unat (ucast (r :: u64) :: u128) = unat r"
proof -
  have "unat r < B128" using unat_lt_exp [of r] by simp
  then show ?thesis by (simp only: unsigned_ucast_eq) (simp add: take_bit_nat_eq_self)
qed

text \<open>The result and the flag, before the lost carry is put back.\<close>

lemma overflowing_mul_halves:
  fixes x rhs
  defines "b \<equiv> B128"
  defines "r \<equiv> unat rhs" and "c \<equiv> unat (lo x) * unat rhs div B128 - lost_carry x rhs"
  shows "lost_carry x rhs \<le> unat (lo x) * unat rhs div B128"
    and "val (fst (u256_overflowing_mul x rhs)) =
      ((unat (hi x) * r + c) mod b) * b + (unat (lo x) * r) mod b"
    and "snd (u256_overflowing_mul x rhs) \<longleftrightarrow> b \<le> unat (hi x) * r + c"
proof -
  have bb: "b = 2 ^ 64 * 2 ^ 64" by (simp add: b_def)
  have num: "(340282366920938463463374607431768211456 :: nat) = b" by (simp add: b_def)
  have split: "unat (lo x) * r div b = unat (lo x) div 2 ^ 64 * r div 2 ^ 64 + lost_carry x rhs"
    unfolding lost_carry_def r_def bb by (rule carry_split) simp
  then show "lost_carry x rhs \<le> unat (lo x) * unat rhs div B128" by (simp add: r_def b_def)
  have c: "c = unat (lo x) div 2 ^ 64 * r div 2 ^ 64" using split by (simp add: c_def b_def r_def)
  have mul: "unat (v * ucast rhs) = (unat v * r) mod b" for v :: u128
    by (simp add: unat_word_ariths unat_ucast_u64 r_def b_def)
  have "unat (drop_bit 64 (lo x)) * r < 2 ^ 64 * 2 ^ 64"
  proof (rule mult_strict_mono)
    show "unat (drop_bit 64 (lo x)) < 2 ^ 64"
      using unat_u128_less [of "lo x"] by (subst unat_drop_u128, intro less_mult_imp_div_less) simp
    show "r < 2 ^ 64" using unat_lt_exp [of rhs] by (simp add: r_def)
  qed auto
  then have "(unat (drop_bit 64 (lo x)) * r) mod b = unat (lo x) div 2 ^ 64 * r"
    by (simp add: bb unat_drop_u128 del: power_numeral)
  then have carry: "unat (drop_bit 64 (drop_bit 64 (lo x) * ucast rhs)) = c"
    by (subst unat_drop_u128) (simp only: mul c)
  have small: "c = 0" if "unat (lo x) * r < b" using that by (simp add: c_def r_def b_def)
  have add: "unat (v + w) = (unat v + unat w) mod b" for v w :: u128
    by (simp add: unat_word_ariths b_def)
  show "val (fst (u256_overflowing_mul x rhs)) =
      ((unat (hi x) * r + c) mod b) * b + (unat (lo x) * r) mod b"
    using small
    by (auto simp: u256_overflowing_mul_def overflowing_mul_w_def overflowing_add_w_def Let_def
        val_def mul add carry unat_ucast_u64 r_def [symmetric] num mod_simps not_le)
  have "b \<le> unat (hi x) * r \<or> b \<le> unat (hi x) * r mod b + c \<longleftrightarrow> b \<le> unat (hi x) * r + c"
    by (cases "b \<le> unat (hi x) * r") auto
  then show "snd (u256_overflowing_mul x rhs) \<longleftrightarrow> b \<le> unat (hi x) * r + c"
    using small
    by (auto simp: u256_overflowing_mul_def overflowing_mul_w_def overflowing_add_w_def Let_def
        mul carry unat_ucast_u64 r_def [symmetric] num not_le)
qed

lemma val_times: "val x * r = unat (hi x) * r * B128 + unat (lo x) * r"
  by (simp add: val_def distrib_right)

lemma val_overflowing_mul_exact:
  assumes "lost_carry x rhs = 0"
  shows "val (fst (u256_overflowing_mul x rhs)) = (val x * unat rhs) mod B256"
    and "snd (u256_overflowing_mul x rhs) \<longleftrightarrow> B256 \<le> val x * unat rhs"
  unfolding overflowing_mul_halves(2,3) val_times B256_eq assms
  by (simp_all only: mod_halves overflow_halves diff_zero zero_less_power zero_less_numeral)

lemma val_overflowing_mul_error:
  assumes "\<not> snd (u256_overflowing_mul x rhs)"
  shows "val x * unat rhs = val (fst (u256_overflowing_mul x rhs)) + lost_carry x rhs * B128"
proof -
  define b where "b = B128"
  define l where "l = unat (lo x) * unat rhs"
  define h where "h = unat (hi x) * unat rhs"
  define e where "e = lost_carry x rhs"
  note halves = overflowing_mul_halves [of x rhs, folded b_def l_def h_def e_def]
  have "h + (l div b - e) < b" using assms halves(3) by simp
  then have "val (fst (u256_overflowing_mul x rhs)) = (h + (l div b - e)) * b + l mod b"
    unfolding halves(2) by simp
  then have "val (fst (u256_overflowing_mul x rhs)) + e * b = (h + (l div b - e) + e) * b + l mod b"
    by (simp add: distrib_right)
  also have "h + (l div b - e) + e = h + l div b" using halves(1) by simp
  also have "(h + l div b) * b + l mod b = h * b + l" by (simp add: distrib_right)
  finally show ?thesis by (simp add: val_times b_def l_def h_def e_def)
qed

lemma lost_carry_aligned: "2 ^ 64 dvd val x \<Longrightarrow> lost_carry x rhs = 0"
proof -
  assume "2 ^ 64 dvd val x"
  moreover have "(2 :: nat) ^ 64 dvd B128" by (intro le_imp_power_dvd) simp
  ultimately have "2 ^ 64 dvd val x mod B128" by (intro dvd_mod) auto
  then have "unat (lo x) mod 2 ^ 64 = 0" by (simp only: val_mod dvd_imp_mod_0)
  then show ?thesis by (simp add: lost_carry_def del: power_numeral)
qed

lemma lost_carry_small:
  assumes "(val x div 2 ^ 64 + 1) * unat rhs \<le> 2 ^ 64"
  shows "lost_carry x rhs = 0"
proof -
  have "unat (lo x) \<le> val x" by (simp add: val_def)
  then have "unat (lo x) div 2 ^ 64 \<le> val x div 2 ^ 64" by (rule div_le_mono)
  then have "(unat (lo x) div 2 ^ 64 + 1) * unat rhs \<le> (val x div 2 ^ 64 + 1) * unat rhs"
    by (intro mult_le_mono1) simp
  then have "(unat (lo x) div 2 ^ 64 + 1) * unat rhs \<le> 2 ^ 64" using assms by (rule order_trans)
  then have le: "unat (lo x) div 2 ^ 64 * unat rhs + unat rhs \<le> 2 ^ 64" by simp
  show ?thesis
  proof (cases "rhs = 0")
    case False
    then have r: "0 < unat rhs" by (simp add: unat_gt_0)
    have "unat (lo x) mod 2 ^ 64 * unat rhs < unat rhs * 2 ^ 64"
      using r by (subst mult.commute) (intro mult_strict_left_mono, auto)
    then have "unat (lo x) mod 2 ^ 64 * unat rhs div 2 ^ 64 < unat rhs" by (rule less_mult_imp_div_less)
    then have "(unat (lo x) div 2 ^ 64 * unat rhs) mod 2 ^ 64 +
        unat (lo x) mod 2 ^ 64 * unat rhs div 2 ^ 64 < 2 ^ 64"
      using le mod_less_eq_dividend [of "unat (lo x) div 2 ^ 64 * unat rhs" "2 ^ 64"] by linarith
    then show ?thesis unfolding lost_carry_def by (rule div_less)
  qed (simp add: lost_carry_def)
qed

section \<open>Bytes\<close>

lemma le_val_append: "le_val (xs @ ys) = le_val xs + 256 ^ length xs * le_val ys"
  by (induction xs) (simp_all add: algebra_simps)

lemma val_from_le_bytes:
  assumes "length a = 32"
  shows "val (u256_from_le_bytes a) = le_val a"
proof -
  have "unat (from_le_bytes_w (take 16 a) :: u128) = le_val (take 16 a)"
    "unat (from_le_bytes_w (drop 16 a) :: u128) = le_val (drop 16 a)"
    using assms by (intro unat_from_le_bytes_w, simp)+
  moreover have "le_val a = le_val (take 16 a) + 256 ^ 16 * le_val (drop 16 a)"
    using le_val_append [of "take 16 a" "drop 16 a"] assms by simp
  ultimately show ?thesis
    by (simp add: u256_from_le_bytes_def split_in_half_def val_def)
qed

lemma val_from_be_bytes:
  assumes "length a = 32"
  shows "val (u256_from_be_bytes a) = le_val (rev a)"
proof -
  have "unat (from_be_bytes_w (take 16 a) :: u128) = le_val (rev (take 16 a))"
    "unat (from_be_bytes_w (drop 16 a) :: u128) = le_val (rev (drop 16 a))"
    unfolding from_be_bytes_w_def using assms by (intro unat_from_le_bytes_w, simp)+
  moreover have "le_val (rev a) = le_val (rev (drop 16 a)) + 256 ^ 16 * le_val (rev (take 16 a))"
    using le_val_append [of "rev (drop 16 a)" "rev (take 16 a)"] assms
    by (simp flip: rev_append)
  ultimately show ?thesis
    by (simp add: u256_from_be_bytes_def split_in_half_def val_def)
qed

lemma to_be_from_be_bytes:
  assumes "length a = 32"
  shows "u256_to_be_bytes (u256_from_be_bytes a) = a"
  using assms
  by (simp add: u256_to_be_bytes_def u256_from_be_bytes_def split_in_half_def to_be_bytes_w_def
      from_be_bytes_w_def to_from_le_bytes_w)

lemma from_be_to_be_bytes: "u256_from_be_bytes (u256_to_be_bytes x) = x"
  by (simp add: u256_to_be_bytes_def u256_from_be_bytes_def split_in_half_def to_be_bytes_w_def
      from_be_bytes_w_def from_to_le_bytes_w)

lemma mul_no_overflow:
  assumes "val x * unat rhs < B256"
  shows "\<not> snd (u256_overflowing_mul x rhs)"
proof -
  have "\<not> B128 \<le> unat (hi x) * unat rhs + unat (lo x) * unat rhs div B128"
    using assms overflow_halves [of B128 "unat (hi x) * unat rhs" "unat (lo x) * unat rhs"]
    unfolding val_times B256_eq by simp
  then show ?thesis unfolding overflowing_mul_halves(3) by (simp add: not_le del: power_numeral)
qed

end
