(* ===== verification/Compact.thy ===== *)
theory Compact
  imports U256
begin

text \<open>
  Compact difficulty targets: \<open>target_from_bits\<close> and \<open>work_from_bits\<close> of
  \<^verbatim>\<open>btc-types/src/utils.rs\<close> and \<open>U256::target_to_bits\<close> of \<^verbatim>\<open>btc-types/src/u256.rs\<close>, with
  their meaning on natural numbers: the exponent and mantissa of a compact target, the two round
  trips between targets and their compact form, and the work of a block.
\<close>

unbundle bit_operations_syntax

section \<open>The conversions\<close>

definition target_from_bits :: "u32 \<Rightarrow> u256" where
  "target_from_bits bits =
     (let unshifted_expt = drop_bit 24 bits;
          (mant, expt) =
            (if unshifted_expt \<le> 3
             then (drop_bit (unat (8 * (3 - unshifted_expt))) (bits AND 0x00FFFFFF), 0)
             else (bits AND 0x00FFFFFF, 8 * (unshifted_expt - 3)))
      in if mant > 0x7FFFFF then u256_ZERO
         else u256_wrapping_shl (u256_from (ucast mant)) expt)"

definition work_from_bits :: "u32 \<Rightarrow> u256 result" where
  "work_from_bits bits = u256_inverse (target_from_bits bits)"

text \<open>\<open>u32::div_ceil\<close> and \<open>u32::try_from(x).unwrap()\<close> for \<open>x: u128\<close>.\<close>

definition u32_div_ceil :: "u32 \<Rightarrow> u32 \<Rightarrow> u32" where
  "u32_div_ceil a b = (if a mod b > 0 then a div b + 1 else a div b)"

definition u32_try_from :: "u128 \<Rightarrow> u32 result" where
  "u32_try_from w = (if unat w < 2 ^ 32 then Inr (ucast w) else Inl Unwrap)"

definition target_to_bits :: "u256 \<Rightarrow> u32 result" where
  "target_to_bits self =
     (let n_size = u32_div_ceil (u256_bits self) 8
      in rbind
           (if n_size \<le> 3 then u32_try_from (push_bit (unat (8 * (3 - n_size))) (lo self))
            else let target = u256_wrapping_shr self (8 * (n_size - 3))
                 in u32_try_from (lo target AND 0x00ffffff))
           (\<lambda>n_compact.
              let (n_compact, n_size) =
                    (if n_compact AND 0x00800000 \<noteq> 0 then (drop_bit 8 n_compact, n_size + 1)
                     else (n_compact, n_size))
              in Inr (n_compact OR push_bit 24 n_size)))"

section \<open>Exponent and mantissa\<close>

definition expt :: "u32 \<Rightarrow> nat" where "expt b = unat b div 2 ^ 24"
definition mant :: "u32 \<Rightarrow> nat" where "mant b = unat b mod 2 ^ 24"

lemma unat_split: "unat b = expt b * 2 ^ 24 + mant b"
  by (simp add: expt_def mant_def)

lemma mant_less: "mant b < 2 ^ 24" by (simp add: mant_def)

lemma expt_less: "expt b < 256"
  using unat_lt_exp [of b] by (simp add: expt_def less_mult_imp_div_less)

lemma unat_drop_24: "unat (drop_bit 24 b :: u32) = expt b"
  by (simp only: unat_drop_bit_eq) (simp add: drop_bit_eq_div expt_def)

lemma unat_and_mant: "unat (b AND 0x00FFFFFF :: u32) = mant b"
proof -
  have "b AND 0x00FFFFFF = take_bit 24 b" by (simp add: take_bit_eq_mask mask_eq_exp_minus_1)
  then show ?thesis by (simp only: unsigned_take_bit_eq) (simp add: take_bit_eq_mod mant_def)
qed

lemma unat_ucast_u32: "unat (ucast (r :: u32) :: u128) = unat r"
proof -
  have "unat r < B128" using unat_lt_exp [of r] by simp
  then show ?thesis by (simp only: unsigned_ucast_eq) (simp add: take_bit_nat_eq_self)
qed

text \<open>
  The number a compact target stands for. The shift distance is masked to eight bits
  (\<open>U256::wrapping_shl\<close>), so from exponent 35 on it wraps around.
\<close>

definition target_val :: "u32 \<Rightarrow> nat" where
  "target_val b =
     (if expt b \<le> 3
      then (let m = mant b div 2 ^ (8 * (3 - expt b)) in if 0x7FFFFF < m then 0 else m)
      else if 0x7FFFFF < mant b then 0
      else (mant b * 2 ^ (8 * (expt b - 3) mod 256)) mod B256)"

lemma val_target_from_bits [u256_simps]: "val (target_from_bits b) = target_val b"
proof (cases "expt b \<le> 3")
  case True
  then have e: "drop_bit 24 b \<le> 3" by (simp add: word_le_nat_alt unat_drop_24)
  have s: "unat (8 * (3 - drop_bit 24 b)) = 8 * (3 - expt b)"
  proof -
    have "unat (3 - drop_bit 24 b) = 3 - expt b" using e by (simp add: unat_sub unat_drop_24)
    then show ?thesis by (subst unat_word_ariths) simp
  qed
  define w where "w = drop_bit (8 * (3 - expt b)) (b AND 0x00FFFFFF)"
  have m: "unat w = mant b div 2 ^ (8 * (3 - expt b))"
    unfolding w_def by (simp only: unat_drop_bit_eq unat_and_mant) (simp add: drop_bit_eq_div)
  have "mant b div 2 ^ (8 * (3 - expt b)) \<le> mant b" by (rule div_le_dividend)
  then have "mant b div 2 ^ (8 * (3 - expt b)) < B256"
    by (rule le_less_trans) (use mant_less [of b] in simp)
  with True show ?thesis
    by (simp only: target_from_bits_def Let_def e if_True s case_prod_conv w_def [symmetric])
       (simp add: word_less_nat_alt m target_val_def u256_simps unat_ucast_u32 Let_def)
next
  case False
  then have e: "\<not> drop_bit 24 b \<le> 3" by (simp add: word_le_nat_alt unat_drop_24)
  have "unat (8 * (drop_bit 24 b - 3)) = 8 * (expt b - 3)"
    using False expt_less [of b]
    by (simp add: unat_word_ariths unat_sub word_le_nat_alt unat_drop_24)
  with False e show ?thesis
    by (simp add: target_from_bits_def Let_def word_less_nat_alt unat_and_mant u256_simps
        unat_ucast_u32 target_val_def del: power_numeral)
qed

section \<open>The work of a block\<close>

definition block_work :: "u32 \<Rightarrow> nat" where
  "block_work b = (if target_val b \<le> 1 then B256 - 1 else B256 div (target_val b + 1))"

lemma work_from_bits_Inr [result_simps]: "work_from_bits b = Inr w \<longleftrightarrow> val w = block_work b"
  using val_inverse [of "target_from_bits b"]
  by (auto simp: work_from_bits_def block_work_def val_target_from_bits val_inject [symmetric])

lemma work_from_bits_total: "\<exists>w. work_from_bits b = Inr w \<and> val w = block_work b"
  using val_inverse [of "target_from_bits b"]
  by (auto simp: work_from_bits_def block_work_def val_target_from_bits)

lemma block_work_pos: "0 < block_work b"
proof -
  have "target_val b + 1 \<le> B256" using val_less [of "target_from_bits b"] by (simp add: u256_simps)
  then have "0 < B256 div (target_val b + 1)" by (simp add: div_greater_zero_iff del: power_numeral)
  then show ?thesis by (simp add: block_work_def)
qed

text \<open>A harder target (a smaller one) means at least as much work.\<close>

lemma block_work_antimono: "target_val a \<le> target_val b \<Longrightarrow> block_work b \<le> block_work a"
proof -
  assume le: "target_val a \<le> target_val b"
  have "B256 div (target_val b + 1) \<le> B256 div (target_val a + 1)"
    using le by (intro div_le_mono2) auto
  moreover have "B256 div (target_val b + 1) \<le> B256 - 1" if "1 \<le> target_val b"
  proof -
    have "B256 div (target_val b + 1) < B256" using that by (intro div_less_dividend) auto
    then show ?thesis by linarith
  qed
  ultimately show ?thesis using le unfolding block_work_def by (simp del: power_numeral)
qed

section \<open>Packing a target\<close>

lemma or_push_disjoint:
  fixes m n :: nat
  assumes "m < 2 ^ k"
  shows "m OR push_bit k n = m + n * 2 ^ k"
proof -
  have "take_bit k m = m" using assms by (simp add: take_bit_nat_eq_self_iff)
  then have "\<not> bit m i" if "k \<le> i" for i
    using that by (metis bit_take_bit_iff linorder_not_less)
  then have "m AND push_bit k n = 0"
    by (auto simp: bit_eq_iff bit_and_iff bit_push_bit_iff)
  from disjunctive_add_eq_or [OF this] show ?thesis by (simp add: push_bit_eq_mult)
qed

lemma unat_or_push_u32:
  assumes "unat a < 2 ^ 24" "unat n < 256"
  shows "unat (a OR push_bit 24 n :: u32) = unat n * 2 ^ 24 + unat a"
proof -
  have "unat (push_bit 24 n) = push_bit 24 (unat n)"
    using assms(2) by (simp only: unsigned_push_bit_eq) (simp add: take_bit_eq_mod push_bit_eq_mult)
  then have "unat (a OR push_bit 24 n) = unat a OR push_bit 24 (unat n)"
    by (simp only: unsigned_or_eq)
  with or_push_disjoint [OF assms(1)] show ?thesis by simp
qed

lemma sign_bit_iff:
  assumes "unat (w :: u32) < 2 ^ 24"
  shows "w AND 0x00800000 \<noteq> 0 \<longleftrightarrow> 2 ^ 23 \<le> unat w"
proof -
  have "w AND 0x00800000 \<noteq> 0 \<longleftrightarrow> bit w 23"
    using and_exp_eq_0_iff_not_bit [of w 23] by simp
  also have "\<dots> \<longleftrightarrow> bit (unat w) 23" by (simp add: bit_unsigned_iff)
  also have "\<dots> \<longleftrightarrow> odd (unat w div 2 ^ 23)" by (simp add: bit_iff_odd)
  also have "\<dots> \<longleftrightarrow> 2 ^ 23 \<le> unat w"
  proof (cases "2 ^ 23 \<le> unat w")
    case True
    then have "unat w div 2 ^ 23 = 1" using assms by (intro div_nat_eqI) auto
    with True show ?thesis by simp
  next
    case False
    then have "unat w div 2 ^ 23 = 0" by simp
    with False show ?thesis by simp
  qed
  finally show ?thesis .
qed

text \<open>The size in bytes and the top three bytes of a target.\<close>

definition compact_size :: "nat \<Rightarrow> nat" where "compact_size v = (bit_len v + 7) div 8"

definition compact_mant :: "nat \<Rightarrow> nat" where
  "compact_mant v = (if compact_size v \<le> 3 then v * 2 ^ (8 * (3 - compact_size v))
     else v div 2 ^ (8 * (compact_size v - 3)))"

lemma compact_size_bounds:
  "v < 2 ^ (8 * compact_size v)"
  "0 < v \<Longrightarrow> 0 < compact_size v \<and> 2 ^ (8 * (compact_size v - 1)) \<le> v"
proof -
  have "bit_len v \<le> 8 * compact_size v" unfolding compact_size_def by linarith
  then show "v < 2 ^ (8 * compact_size v)" by (simp add: bit_len_le)
  assume v: "0 < v"
  then have "bit_len v \<noteq> 0" by simp
  then have n: "0 < compact_size v" "8 * (compact_size v - 1) < bit_len v"
    unfolding compact_size_def by linarith+
  then have "\<not> v < 2 ^ (8 * (compact_size v - 1))" by (simp flip: bit_len_le)
  with n show "0 < compact_size v \<and> 2 ^ (8 * (compact_size v - 1)) \<le> v" by simp
qed

lemma compact_size_le: "v < B256 \<Longrightarrow> compact_size v \<le> 32"
  using bit_len_le [of v 256] unfolding compact_size_def by simp

lemma compact_mant_bounds: "compact_mant v < 2 ^ 24" "0 < v \<Longrightarrow> 2 ^ 16 \<le> compact_mant v"
proof -
  define n where "n = compact_size v"
  note up = compact_size_bounds(1) [of v, folded n_def]
  have low: "0 < n" "2 ^ (8 * (n - 1)) \<le> v" if "0 < v"
    using compact_size_bounds(2) [OF that] by (simp_all add: n_def)
  show "compact_mant v < 2 ^ 24"
  proof (cases "n \<le> 3")
    case True
    have "v * 2 ^ (8 * (3 - n)) < 2 ^ (8 * n) * 2 ^ (8 * (3 - n))" using up by simp
    also have "\<dots> = 2 ^ 24" using True by (simp add: power_add [symmetric] del: power_numeral)
    finally show ?thesis using True by (simp add: compact_mant_def n_def)
  next
    case False
    then have "(2 :: nat) ^ (8 * n) = 2 ^ 24 * 2 ^ (8 * (n - 3))"
      by (simp add: power_add [symmetric] del: power_numeral)
    with up have "v div 2 ^ (8 * (n - 3)) < 2 ^ 24" by (simp only: less_mult_imp_div_less)
    with False show ?thesis by (simp add: compact_mant_def n_def)
  qed
  assume v: "0 < v"
  show "2 ^ 16 \<le> compact_mant v"
  proof (cases "n \<le> 3")
    case True
    have "(2 :: nat) ^ 16 = 2 ^ (8 * (n - 1)) * 2 ^ (8 * (3 - n))"
      using True low(1) [OF v] by (simp add: power_add [symmetric] del: power_numeral)
    also have "\<dots> \<le> v * 2 ^ (8 * (3 - n))" using low(2) [OF v] by simp
    finally show ?thesis using True by (simp add: compact_mant_def n_def)
  next
    case False
    then have "2 ^ 16 * 2 ^ (8 * (n - 3)) = (2 :: nat) ^ (8 * (n - 1))"
      by (simp add: power_add [symmetric] del: power_numeral)
    with low(2) [OF v] have "2 ^ 16 \<le> v div 2 ^ (8 * (n - 3))"
      by (simp only: less_eq_div_iff_mult_less_eq zero_less_power zero_less_numeral)
    with False show ?thesis by (simp add: compact_mant_def n_def)
  qed
qed

lemma unat_n_size: "unat (u32_div_ceil (u256_bits x) 8) = compact_size (val x)"
proof -
  define a where "a = bit_len (val x)"
  have a: "a \<le> 256" using val_less [of x] by (simp add: a_def bit_len_le del: power_numeral)
  have m: "unat (u256_bits x mod 8) = a mod 8" and d: "unat (u256_bits x div 8) = a div 8"
    by (simp_all add: unat_mod_distrib unat_div_distrib unat_u256_bits a_def)
  have d1: "unat (u256_bits x div 8 + 1) = a div 8 + 1"
    by (subst unat_word_ariths) (use a d in simp)
  have "(a + 7) div 8 = (if a mod 8 > 0 then a div 8 + 1 else a div 8)"
  proof -
    define q r where "q = a div 8" and "r = a mod 8"
    then have "a = 8 * q + r" "r < 8" by simp_all
    then have "(a + 7) div 8 = q + (r + 7) div 8" by simp
    also have "(r + 7) div 8 = (if r > 0 then 1 else 0)" using \<open>r < 8\<close> by (auto simp: div_nat_eqI)
    finally show ?thesis by (simp add: q_def r_def)
  qed
  then show ?thesis
    unfolding u32_div_ceil_def compact_size_def word_less_nat_alt m a_def [symmetric]
    using d d1 by simp
qed

lemma u32_try_from_small: "unat w < 2 ^ 32 \<Longrightarrow> \<exists>c. u32_try_from w = Inr c \<and> unat c = unat w"
  by (simp add: u32_try_from_def unsigned_ucast_eq take_bit_nat_eq_self)

lemma mant_expt_eqI:
  assumes "unat b = e * 2 ^ 24 + m" "m < 2 ^ 24"
  shows "expt b = e" "mant b = m"
  using assms by (simp_all add: expt_def mant_def del: power_numeral)

text \<open>The three bytes that \<open>target_to_bits\<close> extracts, before the sign bit is looked at.\<close>

lemma target_to_bits_extract:
  defines "N x \<equiv> u32_div_ceil (u256_bits x) 8"
  shows "\<exists>c. (if N x \<le> 3 then u32_try_from (push_bit (unat (8 * (3 - N x))) (lo x))
      else u32_try_from (lo (u256_wrapping_shr x (8 * (N x - 3))) AND 0x00ffffff)) = Inr c \<and>
    unat c = compact_mant (val x)"
proof -
  define n where "n = compact_size (val x)"
  have N: "unat (N x) = n" by (simp add: N_def n_def unat_n_size)
  have n32: "n \<le> 32" using compact_size_le [OF val_less] by (simp add: n_def)
  have small: "compact_mant (val x) < 2 ^ 32" using compact_mant_bounds(1) [of "val x"] by simp
  show ?thesis
  proof (cases "n \<le> 3")
    case True
    then have le: "N x \<le> 3" by (simp add: word_le_nat_alt N)
    have "unat (3 - N x) = 3 - n" using le by (simp add: unat_sub N)
    then have s: "unat (8 * (3 - N x)) = 8 * (3 - n)" by (subst unat_word_ariths) simp
    have "val x < 2 ^ (8 * n)" using compact_size_bounds(1) by (simp add: n_def)
    also have "\<dots> \<le> 2 ^ 24" using True by (intro power_increasing) auto
    finally have "val x < 2 ^ 24" .
    then have "unat (lo x) = val x" using val_mod [of x] by simp
    then have p: "unat (push_bit (8 * (3 - n)) (lo x)) = compact_mant (val x)"
      using True small by (subst unat_push_u128) (simp add: compact_mant_def n_def)
    then show ?thesis using u32_try_from_small [of "push_bit (8 * (3 - n)) (lo x)"] small
      unfolding s p using le by simp
  next
    case False
    then have gt: "\<not> N x \<le> 3" by (simp add: word_le_nat_alt N)
    have "unat (N x - 3) = n - 3" using gt by (simp add: unat_sub N)
    then have s: "unat (8 * (N x - 3)) = 8 * (n - 3)"
      using n32 by (subst unat_word_ariths) simp
    define t where "t = u256_wrapping_shr x (8 * (N x - 3))"
    have "val t = compact_mant (val x)"
      using False n32 s by (simp add: t_def val_shr compact_mant_def n_def)
    then have "unat (lo t) = compact_mant (val x)"
      using val_mod [of t] compact_mant_bounds(1) [of "val x"] by simp
    moreover have "unat (lo t AND 0x00ffffff) = unat (lo t) mod 2 ^ 24"
    proof -
      have "lo t AND 0x00ffffff = take_bit 24 (lo t)"
        by (simp add: take_bit_eq_mask mask_eq_exp_minus_1)
      then show ?thesis by (simp only: unsigned_take_bit_eq) (simp add: take_bit_eq_mod)
    qed
    ultimately have p: "unat (lo t AND 0x00ffffff) = compact_mant (val x)"
      using compact_mant_bounds(1) [of "val x"] by simp
    have "\<exists>c. u32_try_from (lo t AND 0x00ffffff) = Inr c \<and> unat c = compact_mant (val x)"
      using u32_try_from_small [of "lo t AND 0x00ffffff"] small unfolding p by blast
    with gt show ?thesis unfolding t_def by simp
  qed
qed

lemma target_to_bits_total:
  fixes x
  defines "m \<equiv> compact_mant (val x)" and "n \<equiv> compact_size (val x)"
  shows "\<exists>b. target_to_bits x = Inr b \<and> expt b = (if 2 ^ 23 \<le> m then n + 1 else n) \<and>
    mant b = (if 2 ^ 23 \<le> m then m div 256 else m)"
proof -
  define N where "N = u32_div_ceil (u256_bits x) 8"
  have N: "unat N = n" by (simp add: N_def n_def unat_n_size)
  have n32: "n \<le> 32" using compact_size_le [OF val_less] by (simp add: n_def)
  have m: "m < 2 ^ 24" by (simp add: m_def compact_mant_bounds del: power_numeral)
  obtain c where c: "(if N \<le> 3 then u32_try_from (push_bit (unat (8 * (3 - N))) (lo x))
      else u32_try_from (lo (u256_wrapping_shr x (8 * (N - 3))) AND 0x00ffffff)) = Inr c"
    and cm: "unat c = m"
    using target_to_bits_extract [of x] unfolding N_def m_def by blast
  have sign: "c AND 0x00800000 \<noteq> 0 \<longleftrightarrow> 2 ^ 23 \<le> m"
    using sign_bit_iff [of c] m by (simp only: cm)
  show ?thesis
  proof (cases "2 ^ 23 \<le> m")
    case True
    then have r: "target_to_bits x = Inr (drop_bit 8 c OR push_bit 24 (N + 1))"
      using sign by (simp only: target_to_bits_def Let_def N_def [symmetric] c rbind_simps
          if_True case_prod_conv)
    have d: "unat (drop_bit 8 c) = m div 256"
      by (simp only: unat_drop_bit_eq cm) (simp add: drop_bit_eq_div)
    have n1: "unat (N + 1) = n + 1" using n32 by (subst unat_word_ariths) (simp add: N)
    have lt: "m div 256 < 2 ^ 24" using m by (rule le_less_trans [OF div_le_dividend])
    have "unat (drop_bit 8 c OR push_bit 24 (N + 1)) = (n + 1) * 2 ^ 24 + m div 256"
      using unat_or_push_u32 [of "drop_bit 8 c" "N + 1"] lt n32 unfolding d n1 by simp
    from mant_expt_eqI [OF this lt] r True show ?thesis by simp
  next
    case False
    then have r: "target_to_bits x = Inr (c OR push_bit 24 N)"
      using sign by (simp only: target_to_bits_def Let_def N_def [symmetric] c rbind_simps
          if_False case_prod_conv)
    have "unat (c OR push_bit 24 N) = n * 2 ^ 24 + m"
      using unat_or_push_u32 [of c N] m n32 by (simp add: cm N)
    from mant_expt_eqI [OF this m] r False show ?thesis by simp
  qed
qed

section \<open>Round trips\<close>

text \<open>The bits of a target below its kept mantissa.\<close>

definition dropped_bits :: "u32 \<Rightarrow> nat" where "dropped_bits b = 8 * (expt b - 3)"

lemma target_to_bits_floor:
  assumes "target_to_bits x = Inr b"
  shows "target_val b = val x div 2 ^ dropped_bits b * 2 ^ dropped_bits b"
    and "3 < expt b \<Longrightarrow> 2 ^ 15 \<le> val x div 2 ^ dropped_bits b"
proof -
  define v m n where "v = val x" and "m = compact_mant v" and "n = compact_size v"
  from target_to_bits_total [of x] assms
  have e: "expt b = (if 2 ^ 23 \<le> m then n + 1 else n)"
    and mb: "mant b = (if 2 ^ 23 \<le> m then m div 256 else m)"
    by (auto simp: v_def m_def n_def)
  have m24: "m < 2 ^ 24" and n32: "n \<le> 32"
    using compact_mant_bounds(1) compact_size_le [OF val_less] by (auto simp: m_def n_def v_def)
  have vB: "v < B256" by (simp add: v_def val_less del: power_numeral)
  have mb23: "mant b < 2 ^ 23" using m24 unfolding mb by auto
  have m_eq: "m = (if n \<le> 3 then v * 2 ^ (8 * (3 - n)) else v div 2 ^ (8 * (n - 3)))"
    by (simp add: m_def n_def compact_mant_def)
  \<comment> \<open>the mantissa, in terms of the exponent\<close>
  have mant: "mant b = (if expt b \<le> 3 then v * 2 ^ (8 * (3 - expt b)) else v div 2 ^ dropped_bits b)"
  proof (cases "2 ^ 23 \<le> m")
    case False
    then have "expt b = n" "mant b = m" by (auto simp: e mb)
    then show ?thesis using m_eq by (simp add: dropped_bits_def)
  next
    case True
    then have e1: "expt b = n + 1" and m1: "mant b = m div 256" by (auto simp: e mb)
    consider "n \<le> 2" | "n = 3" | "3 < n" by linarith
    then show ?thesis
    proof cases
      case 1
      then have "8 * (3 - n) = 8 * (2 - n) + 8" by simp
      then have "v * 2 ^ (8 * (3 - n)) = v * 2 ^ (8 * (2 - n)) * 256"
        by (simp only: power_add) simp
      then have "v * 2 ^ (8 * (3 - n)) div 256 = v * 2 ^ (8 * (2 - n))"
        by (metis nonzero_mult_div_cancel_right zero_neq_numeral)
      with 1 show ?thesis by (simp add: e1 m1 m_eq)
    next
      case 2
      then show ?thesis by (simp add: e1 m1 m_eq dropped_bits_def)
    next
      case 3
      have "v div 2 ^ (8 * (n - 3)) div 256 = v div 2 ^ (8 * (n - 3) + 8)"
        by (simp add: power_add div_mult2_eq)
      also have "8 * (n - 3) + 8 = 8 * (n + 1 - 3)" using 3 by simp
      finally show ?thesis using 3 by (simp add: e1 m1 m_eq dropped_bits_def)
    qed
  qed
  show "target_val b = val x div 2 ^ dropped_bits b * 2 ^ dropped_bits b"
  proof (cases "expt b \<le> 3")
    case True
    then have "mant b div 2 ^ (8 * (3 - expt b)) = v" using mant by simp
    moreover have "v < 2 ^ 23"
      using mb23 True mant by (metis le_less_trans mult_le_mono2 nat_mult_1_right one_le_numeral one_le_power)
    ultimately show ?thesis using True by (simp add: target_val_def dropped_bits_def v_def)
  next
    case False
    have "v div 2 ^ dropped_bits b * 2 ^ dropped_bits b \<le> v" by (rule div_times_less_eq_dividend)
    then have "v div 2 ^ dropped_bits b * 2 ^ dropped_bits b < B256" using vB by (rule le_less_trans)
    moreover have "dropped_bits b < 256" using n32 by (simp add: dropped_bits_def e) linarith
    moreover have "\<not> 0x7FFFFF < mant b" using mb23 by simp
    ultimately show ?thesis using False mant
      by (simp add: target_val_def v_def dropped_bits_def [symmetric] del: power_numeral)
  qed
  assume gt: "3 < expt b"
  then have "0 < n" by (auto simp: e split: if_splits)
  then have "0 < v" using bit_len_eq_0 [of v] by (cases "v = 0") (auto simp: n_def compact_size_def)
  then have "2 ^ 16 \<le> m" using compact_mant_bounds(2) by (simp add: m_def del: power_numeral)
  then have "2 ^ 15 \<le> mant b" unfolding mb by auto
  with gt mant show "2 ^ 15 \<le> val x div 2 ^ dropped_bits b" by (simp add: v_def)
qed

text \<open>Unpacking never exceeds the target that was packed, and loses less than one part in \<open>2 ^ 15\<close>.\<close>

lemma target_to_bits_bounds:
  assumes "target_to_bits x = Inr b"
  shows "target_val b \<le> val x" "(val x - target_val b) * 2 ^ 15 \<le> target_val b"
proof -
  note floor = target_to_bits_floor [OF assms]
  show "target_val b \<le> val x" unfolding floor(1) by (rule div_times_less_eq_dividend)
  define k where "k = dropped_bits b"
  have rest: "val x - target_val b = val x mod 2 ^ k"
    unfolding floor(1) k_def by (simp add: minus_div_mult_eq_mod)
  show "(val x - target_val b) * 2 ^ 15 \<le> target_val b"
  proof (cases "3 < expt b")
    case True
    have "val x mod 2 ^ k * 2 ^ 15 \<le> 2 ^ k * (val x div 2 ^ k)"
      by (rule mult_le_mono) (use floor(2) [OF True] in \<open>simp_all add: k_def less_imp_le\<close>)
    then show ?thesis unfolding rest unfolding floor(1) k_def by (simp only: mult.commute)
  next
    case False
    then show ?thesis unfolding rest by (simp add: k_def dropped_bits_def)
  qed
qed

text \<open>
  A compact target is canonical when its mantissa has 16 to 23 significant bits and its value fits
  in 256 bits; such a target survives unpacking and packing.
\<close>

definition canonical_bits :: "u32 \<Rightarrow> bool" where
  "canonical_bits b \<longleftrightarrow> 3 \<le> expt b \<and> expt b \<le> 32 \<and> 2 ^ 15 \<le> mant b \<and> mant b < 2 ^ 23"

lemma target_val_canonical:
  assumes "canonical_bits b"
  shows "target_val b = mant b * 2 ^ dropped_bits b"
proof -
  define k where "k = dropped_bits b"
  have m: "mant b < 2 ^ 23" and e: "3 \<le> expt b" "expt b \<le> 32"
    using assms by (auto simp: canonical_bits_def)
  then have k: "k \<le> 232" by (simp add: k_def dropped_bits_def)
  have "mant b * 2 ^ k < 2 ^ 23 * 2 ^ k" using m by simp
  also have "\<dots> \<le> 2 ^ 23 * 2 ^ 232" using k by (intro mult_le_mono2 power_increasing) auto
  also have "\<dots> < B256" by (simp add: power_add [symmetric])
  finally have fits: "mant b * 2 ^ k < B256" .
  show ?thesis
  proof (cases "expt b \<le> 3")
    case True
    with e m show ?thesis by (simp add: target_val_def dropped_bits_def)
  next
    case False
    moreover have "\<not> 0x7FFFFF < mant b" using m by simp
    ultimately show ?thesis using fits k
      by (simp add: target_val_def dropped_bits_def k_def del: power_numeral)
  qed
qed

lemma canonical_compact:
  assumes "canonical_bits b"
  shows "compact_size (target_val b) = (if mant b < 2 ^ 16 then expt b - 1 else expt b)"
    and "compact_mant (target_val b) = (if mant b < 2 ^ 16 then mant b * 256 else mant b)"
proof -
  define k where "k = dropped_bits b"
  have m: "2 ^ 15 \<le> mant b" "mant b < 2 ^ 23" and e: "3 \<le> expt b"
    using assms by (auto simp: canonical_bits_def)
  have k: "k = 8 * (expt b - 3)" by (simp add: k_def dropped_bits_def)
  have tv: "target_val b = mant b * 2 ^ k" using target_val_canonical [OF assms] by (simp add: k_def)
  have pos: "0 < mant b" using m(1) by (rule less_le_trans [rotated]) simp
  have bl: "bit_len (target_val b) = k + bit_len (mant b)"
    using bit_len_shift [OF pos, of 0 k] by (simp add: tv)
  have ge: "16 \<le> bit_len (mant b)"
    using bit_len_le [of "mant b" 15] m(1) by linarith
  have le: "bit_len (mant b) \<le> 23" using m(2) by (simp add: bit_len_le del: power_numeral)
  have iff: "bit_len (mant b) \<le> 16 \<longleftrightarrow> mant b < 2 ^ 16" by (rule bit_len_le)
  show size: "compact_size (target_val b) = (if mant b < 2 ^ 16 then expt b - 1 else expt b)"
  proof (cases "mant b < 2 ^ 16")
    case True
    then have "bit_len (mant b) = 16" using iff ge by linarith
    then have "bit_len (target_val b) + 7 = 8 * (expt b - 1) + 7" using e by (simp add: bl k)
    then show ?thesis using True by (simp add: compact_size_def)
  next
    case False
    then have "16 < bit_len (mant b)" using iff by linarith
    then obtain j where "bit_len (mant b) = 17 + j" using le_Suc_ex [of 17 "bit_len (mant b)"] by auto
    moreover from this have "j < 7" using le by simp
    ultimately have "bit_len (target_val b) + 7 = 8 * expt b + j" "j < 8" using e by (auto simp: bl k)
    then show ?thesis using False by (simp add: compact_size_def)
  qed
  show "compact_mant (target_val b) = (if mant b < 2 ^ 16 then mant b * 256 else mant b)"
  proof (cases "mant b < 2 ^ 16")
    case True
    then have s: "compact_size (target_val b) = expt b - 1" using size by simp
    have cm: "compact_mant (target_val b) = (if expt b - 1 \<le> 3
        then mant b * 2 ^ k * 2 ^ (8 * (3 - (expt b - 1))) else mant b * 2 ^ k div 2 ^ (8 * (expt b - 1 - 3)))"
      unfolding compact_mant_def s unfolding tv ..
    show ?thesis
    proof (cases "expt b \<le> 4")
      case True
      with e have "k + 8 * (3 - (expt b - 1)) = 8" by (auto simp: k)
      then have "mant b * 2 ^ k * 2 ^ (8 * (3 - (expt b - 1))) = mant b * 2 ^ 8"
        by (simp only: mult.assoc power_add [symmetric])
      moreover have "expt b - 1 \<le> 3" using True by linarith
      ultimately show ?thesis using \<open>mant b < 2 ^ 16\<close> by (simp add: cm)
    next
      case False
      then have "k = 8 + 8 * (expt b - 1 - 3)" by (simp add: k)
      then have "mant b * 2 ^ k = mant b * 256 * 2 ^ (8 * (expt b - 1 - 3))"
        by (simp only: power_add mult.assoc) simp
      then have "mant b * 2 ^ k div 2 ^ (8 * (expt b - 1 - 3)) = mant b * 256"
        by (metis nonzero_mult_div_cancel_right power_not_zero zero_neq_numeral)
      moreover have "\<not> expt b - 1 \<le> 3" using False by linarith
      ultimately show ?thesis using \<open>mant b < 2 ^ 16\<close> by (simp only: cm if_True if_False)
    qed
  next
    case False
    then have s: "compact_size (target_val b) = expt b" using size by simp
    have cm: "compact_mant (target_val b) = (if expt b \<le> 3
        then mant b * 2 ^ k * 2 ^ (8 * (3 - expt b)) else mant b * 2 ^ k div 2 ^ (8 * (expt b - 3)))"
      unfolding compact_mant_def s unfolding tv ..
    show ?thesis
    proof (cases "expt b = 3")
      case True
      with False show ?thesis by (simp add: cm k)
    next
      case ne: False
      with e False show ?thesis by (simp add: cm k)
    qed
  qed
qed

lemma target_to_bits_canonical:
  assumes "canonical_bits b"
  shows "target_to_bits (target_from_bits b) = Inr b"
proof -
  have m: "2 ^ 15 \<le> mant b" "mant b < 2 ^ 23" and e: "3 \<le> expt b"
    using assms by (auto simp: canonical_bits_def)
  obtain c where c: "target_to_bits (target_from_bits b) = Inr c"
      "expt c = (if 2 ^ 23 \<le> compact_mant (target_val b) then compact_size (target_val b) + 1
        else compact_size (target_val b))"
      "mant c = (if 2 ^ 23 \<le> compact_mant (target_val b) then compact_mant (target_val b) div 256
        else compact_mant (target_val b))"
    using target_to_bits_total [of "target_from_bits b"] unfolding val_target_from_bits by blast
  have "expt c = expt b \<and> mant c = mant b"
    using m e unfolding c(2,3) canonical_compact [OF assms] by (cases "mant b < 2 ^ 16") auto
  then have "unat c = unat b" by (simp add: unat_split [of c] unat_split [of b])
  with c(1) show ?thesis by (simp add: word_unat_eq_iff)
qed

text \<open>Evaluation of \<open>target_to_bits\<close> by its value, and the all-ones targets that chains use as limits.\<close>

lemma target_to_bits_eqI:
  fixes b :: u32
  assumes "unat b = (if 2 ^ 23 \<le> compact_mant (val x) then (compact_size (val x) + 1) * 2 ^ 24 + compact_mant (val x) div 256
     else compact_size (val x) * 2 ^ 24 + compact_mant (val x))"
  shows "target_to_bits x = Inr b"
proof -
  obtain c where c: "target_to_bits x = Inr c"
      "expt c = (if 2 ^ 23 \<le> compact_mant (val x) then compact_size (val x) + 1 else compact_size (val x))"
      "mant c = (if 2 ^ 23 \<le> compact_mant (val x) then compact_mant (val x) div 256 else compact_mant (val x))"
    using target_to_bits_total [of x] by blast
  have "unat c = unat b" unfolding unat_split [of c] c(2,3) assms by simp
  then show ?thesis using c(1) by (simp add: word_unat_eq_iff)
qed

lemma bit_len_ones: "bit_len (2 ^ k - 1) = k"
proof (rule bit_len_eqI)
  fix m
  have "2 ^ k - 1 < (2 :: nat) ^ m \<longleftrightarrow> (2 :: nat) ^ k \<le> 2 ^ m" by (simp add: less_eq_Suc_le)
  then show "2 ^ k - 1 < (2 :: nat) ^ m \<longleftrightarrow> k \<le> m" by simp
qed

lemma ones_div: "j \<le> k \<Longrightarrow> (2 ^ k - 1) div 2 ^ j = (2 ^ (k - j) - 1 :: nat)"
  by (metis mask_eq_exp_minus_1 drop_bit_mask_eq drop_bit_eq_div)

lemma target_to_bits_ones:
  assumes "val x = 2 ^ k - 1" "24 < k" "k \<le> 256"
    and "unat b = (let n = (k + 7) div 8; m = 2 ^ (k - 8 * (n - 3)) - 1
      in if 2 ^ 23 \<le> m then (n + 1) * 2 ^ 24 + m div 256 else n * 2 ^ 24 + m)"
  shows "target_to_bits x = Inr b"
proof (rule target_to_bits_eqI)
  have n: "compact_size (val x) = (k + 7) div 8" by (simp only: compact_size_def assms(1) bit_len_ones)
  moreover have "3 < (k + 7) div 8" using assms(2) by presburger
  moreover have "8 * ((k + 7) div 8 - 3) \<le> k" by presburger
  ultimately have "compact_mant (val x) = 2 ^ (k - 8 * ((k + 7) div 8 - 3)) - 1"
    unfolding compact_mant_def n using ones_div [of "8 * ((k + 7) div 8 - 3)" k] by (simp add: assms(1))
  then show "unat b = (if 2 ^ 23 \<le> compact_mant (val x) then (compact_size (val x) + 1) * 2 ^ 24 + compact_mant (val x) div 256
     else compact_size (val x) * 2 ^ 24 + compact_mant (val x))"
    by (simp add: assms(4) n Let_def)
qed

end
