(* ===== verification/Headers.thy ===== *)
theory Headers
  imports Compact
begin

text \<open>
  Hashes, block headers and their byte format: \<^verbatim>\<open>btc-types/src/hash.rs\<close>, \<open>btc_header.rs\<close>,
  \<open>zcash_header.rs\<close>, \<open>header.rs\<close>, \<open>aux.rs\<close> and \<open>contract_args.rs\<close>. The two header structs share
  five fields, which are the record \<open>header_base\<close>; the Bitcoin family and Zcash extend it. The code
  that is generic in the header works on \<open>'a header_base_scheme\<close>.

  What the sources take from outside the repository is a field of the record \<open>host\<close>: the NEAR
  runtime, the hash functions, the Equihash verifier, the transaction decoder and the guards that the
  \<open>near_plugins\<close> and \<open>omni_utils\<close> macros insert.
\<close>

section \<open>The environment of a call\<close>

datatype h256 = H256 (h256_bytes: "u8 list")

datatype role = PauseManager | UnrestrictedSubmitBlocks | UnrestrictedRunGC | DAO | CodeStager
  | CodeDeployer | DurationManager | RelayerManager

record host =
  sha256 :: "u8 list \<Rightarrow> u8 list"
  scrypt :: "u8 list \<Rightarrow> u8 list"
    \<comment> \<open>scrypt with N = 1024, r = p = 1, 32 bytes, the header being password and salt\<close>
  equihash_ok :: "nat \<Rightarrow> nat \<Rightarrow> u8 list \<Rightarrow> u8 list \<Rightarrow> u8 list \<Rightarrow> bool"
  hex_encode :: "u8 list \<Rightarrow> string"
  hex_decode :: "string \<Rightarrow> u8 list option"
  parse_coinbase :: "u8 list \<Rightarrow> (h256 \<times> string option) option"
    \<comment> \<open>the decoded transaction's id and its first input's script in hex\<close>
  block_timestamp_ms :: u64
  is_paused :: "string \<Rightarrow> bool"
  caller_has_role :: "role \<Rightarrow> bool"
  is_trusted_relayer :: bool
  is_self_call :: bool
  state_exists :: bool
  acl_init_super_admin :: bool
  attached_deposit :: u128
  storage_byte_cost :: u128
  loop_gas :: nat
    \<comment> \<open>how many iterations of an unbounded loop the gas of the call pays for\<close>

section \<open>Hashes\<close>

definition h256_default :: h256 where "h256_default = H256 (replicate 32 0)"

definition wf_h256 :: "h256 \<Rightarrow> bool" where "wf_h256 h \<longleftrightarrow> length (h256_bytes h) = 32"

definition h256_try_from :: "u8 list \<Rightarrow> string + h256" where
  "h256_try_from value = (if length value = 32 then Inr (H256 value) else Inl ''Invalid hex length'')"

definition h256_to_string :: "host \<Rightarrow> h256 \<Rightarrow> string" where
  "h256_to_string env h = hex_encode env (rev (h256_bytes h))"

text \<open>\<open>hex::decode_to_slice\<close> fails unless the text decodes to exactly 32 bytes.\<close>

definition h256_from_str :: "host \<Rightarrow> string \<Rightarrow> h256 option" where
  "h256_from_str env s = (case hex_decode env s of None \<Rightarrow> None
     | Some bytes \<Rightarrow> if length bytes = 32 then Some (H256 (rev bytes)) else None)"

definition double_sha256 :: "host \<Rightarrow> u8 list \<Rightarrow> h256" where
  "double_sha256 env input = H256 (sha256 env (sha256 env input))"

section \<open>Headers\<close>

record header_base =
  version :: i32
  prev_block_hash :: h256
  merkle_root :: h256
  time :: u32
  bits :: u32

record btc_header = header_base +
  nonce :: u32

record zcash_light_header = header_base +
  block_commitments :: h256

record zcash_header = zcash_light_header +
  znonce :: h256
  solution :: "u8 list"

record 'a ext_header =
  block_header :: "'a header_base_scheme"
  block_hash :: h256
  chain_work :: u256
  block_height :: u64

datatype decode_error = InvalidLength | IntParseError

text \<open>\<open>block_header[i..j]\<close>, and the two ways a slice becomes a field.\<close>

definition byte_slice :: "'x list \<Rightarrow> nat \<Rightarrow> nat \<Rightarrow> 'x list" where
  "byte_slice xs i j = take (j - i) (drop i xs)"

definition int_field :: "u8 list \<Rightarrow> decode_error + u32" where
  "int_field bs = (if length bs = 4 then Inr (from_le_bytes_w bs) else Inl IntParseError)"

definition hash_field :: "u8 list \<Rightarrow> decode_error + h256" where
  "hash_field bs = (case h256_try_from bs of Inl _ \<Rightarrow> Inl InvalidLength | Inr h \<Rightarrow> Inr h)"

definition btc_SIZE :: nat where "btc_SIZE = 4 + 32 + 32 + 4 + 4 + 4"

definition btc_get_block_header_vec :: "btc_header \<Rightarrow> u8 list" where
  "btc_get_block_header_vec h =
     to_le_bytes_w (version h) @ h256_bytes (prev_block_hash h) @ h256_bytes (merkle_root h) @
     to_le_bytes_w (time h) @ to_le_bytes_w (bits h) @ to_le_bytes_w (nonce h)"

definition btc_from_block_header_vec :: "u8 list \<Rightarrow> decode_error + btc_header" where
  "btc_from_block_header_vec b =
     (if length b \<noteq> btc_SIZE then Inl InvalidLength
      else rbind (int_field (byte_slice b 0 4)) (\<lambda>version.
           rbind (hash_field (byte_slice b 4 36)) (\<lambda>prev_block_hash.
           rbind (hash_field (byte_slice b 36 68)) (\<lambda>merkle_root.
           rbind (int_field (byte_slice b 68 72)) (\<lambda>time.
           rbind (int_field (byte_slice b 72 76)) (\<lambda>bits.
           rbind (int_field (byte_slice b 76 80)) (\<lambda>nonce.
           Inr \<lparr>version = version, prev_block_hash = prev_block_hash, merkle_root = merkle_root,
                time = time, bits = bits, nonce = nonce\<rparr>)))))))"

definition btc_block_hash :: "host \<Rightarrow> btc_header \<Rightarrow> h256" where
  "btc_block_hash env h = double_sha256 env (btc_get_block_header_vec h)"

text \<open>\<open>block_hash_pow\<close> without and with the feature \<^verbatim>\<open>scrypt_hash\<close>.\<close>

definition btc_block_hash_pow :: "host \<Rightarrow> btc_header \<Rightarrow> h256" where
  "btc_block_hash_pow env h = double_sha256 env (btc_get_block_header_vec h)"

definition scrypt_block_hash_pow :: "host \<Rightarrow> btc_header \<Rightarrow> h256" where
  "scrypt_block_hash_pow env h = H256 (scrypt env (btc_get_block_header_vec h))"

definition get_chain_id :: "btc_header \<Rightarrow> i32" where
  "get_chain_id h = signed_drop_bit 16 (version h)"

definition btc_into_light :: "btc_header \<Rightarrow> btc_header" where
  "btc_into_light h = h"

definition zcash_SIZE :: nat where
  "zcash_SIZE = 4 + 32 + 32 + 32 + 4 + 4 + 32 + 3 + 1344"

definition get_block_header_vec_for_equihash :: "zcash_header \<Rightarrow> u8 list" where
  "get_block_header_vec_for_equihash h =
     to_le_bytes_w (version h) @ h256_bytes (prev_block_hash h) @ h256_bytes (merkle_root h) @
     h256_bytes (block_commitments h) @ to_le_bytes_w (time h) @ to_le_bytes_w (bits h)"

definition zcash_get_block_header_vec :: "zcash_header \<Rightarrow> u8 list" where
  "zcash_get_block_header_vec h =
     to_le_bytes_w (version h) @ h256_bytes (prev_block_hash h) @ h256_bytes (merkle_root h) @
     h256_bytes (block_commitments h) @ to_le_bytes_w (time h) @ to_le_bytes_w (bits h) @
     h256_bytes (znonce h) @ [0xfd, 0x40, 0x05] @ solution h"

definition zcash_from_block_header_vec :: "u8 list \<Rightarrow> decode_error + zcash_header" where
  "zcash_from_block_header_vec b =
     (if length b \<noteq> zcash_SIZE then Inl InvalidLength
      else rbind (int_field (byte_slice b 0 4)) (\<lambda>version.
           rbind (hash_field (byte_slice b 4 36)) (\<lambda>prev_block_hash.
           rbind (hash_field (byte_slice b 36 68)) (\<lambda>merkle_root.
           rbind (hash_field (byte_slice b 68 100)) (\<lambda>block_commitments.
           rbind (int_field (byte_slice b 100 104)) (\<lambda>time.
           rbind (int_field (byte_slice b 104 108)) (\<lambda>bits.
           rbind (hash_field (byte_slice b 108 140)) (\<lambda>nonce.
           Inr \<lparr>version = version, prev_block_hash = prev_block_hash, merkle_root = merkle_root,
                time = time, bits = bits, block_commitments = block_commitments,
                znonce = nonce, solution = drop 143 b\<rparr>))))))))"

definition zcash_block_hash :: "host \<Rightarrow> zcash_header \<Rightarrow> h256" where
  "zcash_block_hash env h = double_sha256 env (zcash_get_block_header_vec h)"

definition zcash_block_hash_pow :: "host \<Rightarrow> zcash_header \<Rightarrow> h256" where
  "zcash_block_hash_pow env h = double_sha256 env (zcash_get_block_header_vec h)"

definition zcash_into_light :: "zcash_header \<Rightarrow> zcash_light_header" where
  "zcash_into_light h =
     \<lparr>version = version h, prev_block_hash = prev_block_hash h, merkle_root = merkle_root h,
      time = time h, bits = bits h, block_commitments = block_commitments h\<rparr>"

section \<open>Arguments of the contract's methods\<close>

datatype network = Mainnet | Testnet

record 'h init_args =
  genesis_block_hash :: h256
  genesis_block_height :: u64
  arg_skip_pow_verification :: bool
  arg_gc_threshold :: u64
  arg_network :: network
  submit_blocks_arg :: "'h list"

record proof_args =
  tx_id :: h256
  tx_block_blockhash :: h256
  tx_index :: u64
  merkle_proof :: "h256 list"
  confirmations :: u64

record proof_args_v2 = proof_args +
  coinbase_tx_id :: h256
  coinbase_merkle_proof :: "h256 list"

definition proof_args_from_v2 :: "proof_args_v2 \<Rightarrow> proof_args" where
  "proof_args_from_v2 args =
     \<lparr>tx_id = tx_id args, tx_block_blockhash = tx_block_blockhash args, tx_index = tx_index args,
      merkle_proof = merkle_proof args, confirmations = confirmations args\<rparr>"

record aux_data =
  aux_coinbase_tx :: "u8 list"
  aux_merkle_proof :: "h256 list"
  aux_chain_merkle_proof :: "h256 list"
  aux_chain_id :: usize
  aux_parent_block :: btc_header

definition get_coinbase_tx :: "host \<Rightarrow> aux_data \<Rightarrow> (h256 \<times> string option) result" where
  "get_coinbase_tx env aux = get_or Unwrap (parse_coinbase env (aux_coinbase_tx aux))"

section \<open>Slices and fields\<close>

lemma length_byte_slice [simp]: "length (byte_slice xs i j) = min (j - i) (length xs - i)"
  by (simp add: byte_slice_def)

lemma byte_slice_append: "i \<le> j \<Longrightarrow> j \<le> k \<Longrightarrow> byte_slice xs i j @ byte_slice xs j k = byte_slice xs i k"
proof -
  assume "i \<le> j" "j \<le> k"
  then have "k - i = (j - i) + (k - j)" "drop j xs = drop (j - i) (drop i xs)" by auto
  then show ?thesis by (simp only: byte_slice_def take_add)
qed

lemma byte_slice_all [simp]: "length xs \<le> k \<Longrightarrow> byte_slice xs 0 k = xs"
  by (simp add: byte_slice_def)

lemma byte_slice_drop: "i \<le> length xs \<Longrightarrow> byte_slice xs 0 i @ drop i xs = xs"
  by (simp add: byte_slice_def)

lemma int_field_Inr:
  "int_field bs = Inr w \<longleftrightarrow> length bs = 4 \<and> w = from_le_bytes_w bs"
  by (auto simp: int_field_def)

lemma int_field_enc [simp]: "int_field (to_le_bytes_w (w :: u32)) = Inr w"
  by (simp add: int_field_def from_to_le_bytes_w)

lemma hash_field_Inr: "hash_field bs = Inr h \<longleftrightarrow> length bs = 32 \<and> h = H256 bs"
  by (auto simp: hash_field_def h256_try_from_def)

lemma hash_field_enc [simp]: "wf_h256 h \<Longrightarrow> hash_field (h256_bytes h) = Inr h"
  by (simp add: hash_field_Inr wf_h256_def)

lemma le_bytes_field: "length bs = 4 \<Longrightarrow> to_le_bytes_w (from_le_bytes_w bs :: u32) = bs"
  by (simp add: to_from_le_bytes_w)

lemmas field_simps' = int_field_Inr hash_field_Inr result_simps

section \<open>The interface of a header format\<close>

text \<open>
  What the contract and the relayer rely on: a well-formed header survives encoding and decoding,
  decoding accepts exactly the inputs of the fixed size, and yields a well-formed header.
\<close>

locale header_codec =
  fixes enc :: "'h \<Rightarrow> u8 list" and dec :: "u8 list \<Rightarrow> decode_error + 'h"
    and wf :: "'h \<Rightarrow> bool" and size :: nat
  assumes dec_enc: "wf h \<Longrightarrow> dec (enc h) = Inr h"
    and enc_size: "wf h \<Longrightarrow> length (enc h) = size"
    and dec_size: "length b = size \<Longrightarrow> \<exists>h. dec b = Inr h \<and> wf h"
    and dec_reject: "length b \<noteq> size \<Longrightarrow> dec b = Inl InvalidLength"
begin

lemma enc_inj: "wf h \<Longrightarrow> wf h' \<Longrightarrow> enc h = enc h' \<longleftrightarrow> h = h'"
  by (metis dec_enc sum.inject(2))

lemma dec_cases: "dec b = Inl InvalidLength \<longleftrightarrow> length b \<noteq> size"
  using dec_size dec_reject by force

lemma dec_wf: "dec b = Inr h \<Longrightarrow> wf h"
  by (metis dec_reject dec_size sum.inject(2) sum.distinct(1))

lemma dec_enc_dec: "dec b = Inr h \<Longrightarrow> dec (enc h) = Inr h"
  by (simp add: dec_enc dec_wf)

text \<open>A hash of the encoding can only confuse two well-formed headers by a collision.\<close>

lemma hash_collision:
  assumes "wf h" "wf h'" "h \<noteq> h'" "f (enc h) = f (enc h')"
  shows "enc h \<noteq> enc h' \<and> f (enc h) = f (enc h') \<and> length (enc h) = size \<and> length (enc h') = size"
  using assms by (simp add: enc_inj enc_size)

end

definition wf_btc_header :: "btc_header \<Rightarrow> bool" where
  "wf_btc_header h \<longleftrightarrow> wf_h256 (prev_block_hash h) \<and> wf_h256 (merkle_root h)"

definition wf_zcash_header :: "zcash_header \<Rightarrow> bool" where
  "wf_zcash_header h \<longleftrightarrow> wf_h256 (prev_block_hash h) \<and> wf_h256 (merkle_root h) \<and>
     wf_h256 (block_commitments h) \<and> wf_h256 (znonce h) \<and> length (solution h) = 1344"

lemma wf_h256_len: "wf_h256 h \<Longrightarrow> length (h256_bytes h) = 32"
  by (simp add: wf_h256_def)

lemma btc_dec_enc:
  assumes "wf_btc_header h"
  shows "btc_from_block_header_vec (btc_get_block_header_vec h) = Inr h"
proof -
  have "wf_h256 (prev_block_hash h)" "wf_h256 (merkle_root h)"
    using assms by (simp_all add: wf_btc_header_def)
  note wf = this this [THEN wf_h256_len]
  show ?thesis
    by (simp add: btc_from_block_header_vec_def btc_get_block_header_vec_def btc_SIZE_def byte_slice_def wf)
qed

lemma btc_enc_dec:
  assumes "btc_from_block_header_vec b = Inr h"
  shows "btc_get_block_header_vec h = b"
proof -
  have len: "length b = 80"
    using assms by (simp add: btc_from_block_header_vec_def btc_SIZE_def split: if_splits)
  then have "btc_get_block_header_vec h = byte_slice b 0 4 @ byte_slice b 4 36 @ byte_slice b 36 68 @
      byte_slice b 68 72 @ byte_slice b 72 76 @ byte_slice b 76 80"
    using assms by (auto simp: btc_from_block_header_vec_def btc_SIZE_def field_simps'
        btc_get_block_header_vec_def le_bytes_field)
  also have "\<dots> = b" using len by (simp add: byte_slice_append)
  finally show ?thesis .
qed

interpretation btc_codec: header_codec btc_get_block_header_vec btc_from_block_header_vec
  wf_btc_header btc_SIZE
proof unfold_locales
  show "btc_from_block_header_vec (btc_get_block_header_vec h) = Inr h" if "wf_btc_header h" for h
    using that by (rule btc_dec_enc)
  show "length (btc_get_block_header_vec h) = btc_SIZE" if "wf_btc_header h" for h
    using that by (simp add: btc_get_block_header_vec_def btc_SIZE_def wf_btc_header_def wf_h256_def)
  show "\<exists>h. btc_from_block_header_vec b = Inr h \<and> wf_btc_header h" if "length b = btc_SIZE" for b
    using that by (simp add: btc_from_block_header_vec_def btc_SIZE_def int_field_def hash_field_def
        h256_try_from_def wf_btc_header_def wf_h256_def)
  show "btc_from_block_header_vec b = Inl InvalidLength" if "length b \<noteq> btc_SIZE" for b
    using that by (simp add: btc_from_block_header_vec_def)
qed

lemma zcash_dec_enc:
  assumes "wf_zcash_header h"
  shows "zcash_from_block_header_vec (zcash_get_block_header_vec h) = Inr h"
proof -
  have "wf_h256 (prev_block_hash h)" "wf_h256 (merkle_root h)" "wf_h256 (block_commitments h)"
    "wf_h256 (znonce h)" and sol: "length (solution h) = 1344"
    using assms by (simp_all add: wf_zcash_header_def)
  note wf = this this(1-4) [THEN wf_h256_len]
  show ?thesis
    by (simp add: zcash_from_block_header_vec_def zcash_get_block_header_vec_def zcash_SIZE_def
        byte_slice_def wf)
qed

interpretation zcash_codec: header_codec zcash_get_block_header_vec zcash_from_block_header_vec
  wf_zcash_header zcash_SIZE
proof unfold_locales
  show "zcash_from_block_header_vec (zcash_get_block_header_vec h) = Inr h" if "wf_zcash_header h" for h
    using that by (rule zcash_dec_enc)
  show "length (zcash_get_block_header_vec h) = zcash_SIZE" if "wf_zcash_header h" for h
    using that
    by (simp add: zcash_get_block_header_vec_def zcash_SIZE_def wf_zcash_header_def wf_h256_def)
  show "\<exists>h. zcash_from_block_header_vec b = Inr h \<and> wf_zcash_header h" if "length b = zcash_SIZE" for b
    using that by (simp add: zcash_from_block_header_vec_def zcash_SIZE_def int_field_def hash_field_def
        h256_try_from_def wf_zcash_header_def wf_h256_def)
  show "zcash_from_block_header_vec b = Inl InvalidLength" if "length b \<noteq> zcash_SIZE" for b
    using that by (simp add: zcash_from_block_header_vec_def)
qed

text \<open>
  The three length bytes in front of the Equihash solution are not looked at when decoding, so
  encoding gives the input back exactly when they are the expected ones.
\<close>

lemma zcash_enc_dec:
  assumes "zcash_from_block_header_vec b = Inr h"
  shows "zcash_get_block_header_vec h = b \<longleftrightarrow> byte_slice b 140 143 = [0xfd, 0x40, 0x05]"
proof -
  have len: "length b = 1487"
    using assms by (simp add: zcash_from_block_header_vec_def zcash_SIZE_def split: if_splits)
  then have enc: "zcash_get_block_header_vec h = byte_slice b 0 140 @ [0xfd, 0x40, 0x05] @ drop 143 b"
    using assms by (auto simp: zcash_from_block_header_vec_def zcash_SIZE_def field_simps'
        zcash_get_block_header_vec_def le_bytes_field byte_slice_append [symmetric, of 0 4 140]
        byte_slice_append [symmetric, of 4 36 140] byte_slice_append [symmetric, of 36 68 140]
        byte_slice_append [symmetric, of 68 100 140] byte_slice_append [symmetric, of 100 104 140]
        byte_slice_append [symmetric, of 104 108 140])
  have "b = byte_slice b 0 140 @ byte_slice b 140 143 @ drop 143 b"
    using byte_slice_append [of 0 140 143 b] byte_slice_drop [of 143 b] len
    by (simp flip: append_assoc)
  then show ?thesis unfolding enc using len
    by (metis append_same_eq append_eq_append_conv length_byte_slice)
qed

end
