(* ===== verification/Merkle.thy ===== *)
theory Merkle
  imports Headers
begin

text \<open>
  Merkle trees over transaction hashes: \<^verbatim>\<open>merkle-tools/src/lib.rs\<close>. Positions are \<open>usize\<close>, 32 bits in
  the contract and 64 in the relayer, so they are words of any length here. \<open>merkle_root_calculator\<close>
  is the crate's own reference implementation of the root (in its test module). Proofs computed for
  a position of a list verify against its root, and an accepted proof of the tree's height is for an
  element of the list, unless two of the hashed pairs collide.
\<close>

section \<open>The algorithms\<close>

definition compute_hash :: "host \<Rightarrow> h256 \<Rightarrow> h256 \<Rightarrow> h256" where
  "compute_hash env first_tx_hash second_tx_hash =
     double_sha256 env (h256_bytes first_tx_hash @ h256_bytes second_tx_hash)"

fun compute_root_from_merkle_proof :: "host \<Rightarrow> h256 \<Rightarrow> 'w::len word \<Rightarrow> h256 list \<Rightarrow> h256" where
  "compute_root_from_merkle_proof env current_hash current_position [] = current_hash"
| "compute_root_from_merkle_proof env current_hash current_position (proof_hash # rest) =
     compute_root_from_merkle_proof env
       (if current_position mod 2 = 0 then compute_hash env current_hash proof_hash
        else compute_hash env proof_hash current_hash)
       (current_position div 2) rest"

text \<open>A level of odd length repeats its last element; then neighbours are hashed together.\<close>

definition pad_even :: "h256 list \<Rightarrow> h256 list" where
  "pad_even hs = (if odd (length hs) then hs @ [last hs] else hs)"

fun pair_hashes :: "host \<Rightarrow> h256 list \<Rightarrow> h256 list" where
  "pair_hashes env (a # b # hs) = compute_hash env a b # pair_hashes env hs"
| "pair_hashes env hs = []"

definition nth_res :: "'x list \<Rightarrow> nat \<Rightarrow> 'x result" where
  "nth_res xs i = (if i < length xs then Inr (xs ! i) else Inl IndexOutOfBounds)"

lemma length_pair_hashes [simp]: "length (pair_hashes env hs) = length hs div 2"
  by (induction env hs rule: pair_hashes.induct) auto

lemma length_pad_even: "length (pad_even hs) = (if odd (length hs) then Suc (length hs) else length hs)"
  by (simp add: pad_even_def)

function merkle_proof_calculator :: "host \<Rightarrow> h256 list \<Rightarrow> 'w::len word \<Rightarrow> h256 list result" where
  "merkle_proof_calculator env current_hashes transaction_position =
     (if length current_hashes > 1 then
        (let hashes = pad_even current_hashes
         in rbind (if transaction_position mod 2 = 1 then nth_res hashes (unat transaction_position - 1)
                   else nth_res hashes (unat transaction_position + 1)) (\<lambda>sibling.
            rbind (merkle_proof_calculator env (pair_hashes env hashes) (transaction_position div 2))
              (\<lambda>rest. Inr (sibling # rest))))
      else Inr [])"
  by pat_completeness auto
termination
  by (relation "measure (\<lambda>(env, hs, pos). length hs)") (auto simp: length_pad_even elim!: oddE)

declare merkle_proof_calculator.simps [simp del]

text \<open>The reference root of the crate's tests; the empty list, on which it underflows, is a panic.\<close>

function merkle_root_calculator :: "host \<Rightarrow> h256 list \<Rightarrow> h256 result" where
  "merkle_root_calculator env hash_list =
     (if hash_list = [] then Inl Overflow
      else if length hash_list = 1 then Inr (hash_list ! 0)
      else merkle_root_calculator env
        (pair_hashes env hash_list @
         (if odd (length hash_list) then [compute_hash env (last hash_list) (last hash_list)] else [])))"
  by pat_completeness auto
termination
  by (relation "measure (\<lambda>(env, hs). length hs)") (auto simp: Suc_lessI elim!: oddE)

declare merkle_root_calculator.simps [simp del]

section \<open>Levels of the tree\<close>

lemma pair_hashes_append:
  "even (length xs) \<Longrightarrow> pair_hashes env (xs @ ys) = pair_hashes env xs @ pair_hashes env ys"
  by (induction env xs rule: pair_hashes.induct) auto

lemma pair_hashes_snoc: "odd (length xs) \<Longrightarrow> pair_hashes env (xs @ [y]) = pair_hashes env xs @ [compute_hash env (last xs) y]"
  by (induction env xs rule: pair_hashes.induct) auto

lemma pair_hashes_pad: "pair_hashes env (pad_even hs) = pair_hashes env hs @
    (if odd (length hs) then [compute_hash env (last hs) (last hs)] else [])"
  by (simp add: pad_even_def pair_hashes_snoc)

lemma nth_pair_hashes:
  "2 * k + 1 < length hs \<Longrightarrow> pair_hashes env hs ! k = compute_hash env (hs ! (2 * k)) (hs ! (2 * k + 1))"
proof (induction env hs arbitrary: k rule: pair_hashes.induct)
  case (1 env a b hs)
  then show ?case by (cases k) auto
qed auto

lemma even_pad [simp]: "even (length (pad_even hs))"
  by (simp add: length_pad_even)

lemma set_pad: "set (pad_even hs) = set hs"
  by (cases "hs = []") (auto simp: pad_even_def)

lemma nth_pad: "i < length hs \<Longrightarrow> pad_even hs ! i = hs ! i"
  by (auto simp: pad_even_def nth_append)

fun tree_height :: "nat \<Rightarrow> nat" where
  "tree_height n = (if n \<le> 1 then 0 else Suc (tree_height ((n + 1) div 2)))"

declare tree_height.simps [simp del]

lemma length_next_level: "length (pair_hashes env (pad_even hs)) = (length hs + 1) div 2"
  by (auto simp: length_pad_even elim!: oddE evenE)

lemma merkle_root_step:
  "1 < length hs \<Longrightarrow>
   merkle_root_calculator env hs = merkle_root_calculator env (pair_hashes env (pad_even hs))"
  by (subst merkle_root_calculator.simps) (auto simp: pair_hashes_pad)

lemma merkle_root_single: "length hs = 1 \<Longrightarrow> merkle_root_calculator env hs = Inr (hs ! 0)"
  by (subst merkle_root_calculator.simps) auto

text \<open>Induction along the levels, the recursion every routine here follows.\<close>

lemma level_induct [consumes 1, case_names single level]:
  assumes "hs \<noteq> []"
    and "\<And>hs. length hs = 1 \<Longrightarrow> P hs"
    and "\<And>hs. 1 < length hs \<Longrightarrow> P (pair_hashes env (pad_even hs)) \<Longrightarrow> P hs"
  shows "P hs"
  using assms(1)
proof (induction "length hs" arbitrary: hs rule: less_induct)
  case less
  show ?case
  proof (cases "length hs = 1")
    case False
    with less.prems have gt: "1 < length hs" by (cases hs) auto
    let ?l = "pair_hashes env (pad_even hs)"
    have len: "length ?l < length hs" "length ?l \<noteq> 0"
      unfolding length_next_level using gt by linarith+
    from len(2) have "?l \<noteq> []" by blast
    with len(1) have "P ?l" by (rule less.hyps)
    with gt show ?thesis by (rule assms(3))
  qed (rule assms(2))
qed

lemma merkle_root_total: "hs \<noteq> [] \<Longrightarrow> \<exists>r. merkle_root_calculator env hs = Inr r"
  by (induction hs rule: level_induct [where env = env])
     (auto simp: merkle_root_single merkle_root_step)

section \<open>Computed proofs verify\<close>

lemma odd_word_iff: "(pos :: 'w::len word) mod 2 = 1 \<longleftrightarrow> odd (unat pos)" "pos mod 2 = 0 \<longleftrightarrow> even (unat pos)"
  if "1 < LENGTH('w)"
proof -
  have "unat (pos mod 2) = unat pos mod unat (2 :: 'w word)" by (rule unat_mod_distrib)
  moreover have "unat (2 :: 'w word) = 2"
    using that power_strict_increasing [of 1 "LENGTH('w)" "2 :: nat"] by (simp add: unat_numeral)
  ultimately have m: "unat (pos mod 2) = unat pos mod 2" by simp
  show "pos mod 2 = 1 \<longleftrightarrow> odd (unat pos)" "pos mod 2 = 0 \<longleftrightarrow> even (unat pos)"
    by (simp_all add: word_unat_eq_iff m odd_iff_mod_2_eq_one even_iff_mod_2_eq_zero)
qed

lemma unat_div_2: "1 < LENGTH('w) \<Longrightarrow> unat (pos div 2 :: 'w::len word) = unat pos div 2"
proof -
  assume "1 < LENGTH('w)"
  then have "unat (2 :: 'w word) = 2"
    using power_strict_increasing [of 1 "LENGTH('w)" "2 :: nat"] by (simp add: unat_numeral)
  then show ?thesis by (simp add: unat_div_distrib)
qed

text \<open>The root of a path on natural positions.\<close>

fun path_root :: "host \<Rightarrow> h256 \<Rightarrow> nat \<Rightarrow> h256 list \<Rightarrow> h256" where
  "path_root env h i [] = h"
| "path_root env h i (p # ps) =
     path_root env (if even i then compute_hash env h p else compute_hash env p h) (i div 2) ps"

lemma compute_root_path:
  "1 < LENGTH('w) \<Longrightarrow>
   compute_root_from_merkle_proof env h (pos :: 'w::len word) ps = path_root env h (unat pos) ps"
  by (induction ps arbitrary: h pos) (simp_all add: odd_word_iff unat_div_2)

text \<open>Only the low bits of the position, one per proof element, are looked at.\<close>

lemma path_root_mod: "path_root env h (i mod 2 ^ length ps) ps = path_root env h i ps"
proof (induction ps arbitrary: h i)
  case (Cons p ps)
  have "even (i mod (2 * 2 ^ length ps)) \<longleftrightarrow> even i" by (intro dvd_mod_iff) simp
  then have "even (i mod 2 ^ length (p # ps)) \<longleftrightarrow> even i" by simp
  moreover have "i mod 2 ^ length (p # ps) div 2 = i div 2 mod 2 ^ length ps"
    by (simp add: mod_mult2_eq)
  ultimately show ?case by (simp only: path_root.simps Cons)
qed simp

lemma sibling_index:
  assumes "i < length (pad_even hs)"
  defines "j \<equiv> (if even i then i + 1 else i - 1)"
  shows "j < length (pad_even hs)"
    and "(if even i then compute_hash env (pad_even hs ! i) (pad_even hs ! j)
      else compute_hash env (pad_even hs ! j) (pad_even hs ! i)) = pair_hashes env (pad_even hs) ! (i div 2)"
proof -
  have ev: "even (length (pad_even hs))" by (rule even_pad)
  then have lt: "2 * (i div 2) + 1 < length (pad_even hs)" using assms(1) by presburger
  show "j < length (pad_even hs)" using ev assms(1) unfolding j_def by (cases "even i") presburger+
  show "(if even i then compute_hash env (pad_even hs ! i) (pad_even hs ! j)
      else compute_hash env (pad_even hs ! j) (pad_even hs ! i)) = pair_hashes env (pad_even hs) ! (i div 2)"
    unfolding nth_pair_hashes [OF lt] j_def by (cases "even i") (auto elim!: evenE oddE)
qed

lemma merkle_proof_complete:
  fixes pos :: "'w::len word"
  assumes "hs \<noteq> []" "1 < LENGTH('w)" "unat pos < length hs"
  shows "\<exists>proof. merkle_proof_calculator env hs pos = Inr proof \<and> length proof = tree_height (length hs) \<and>
    merkle_root_calculator env hs = Inr (compute_root_from_merkle_proof env (hs ! unat pos) pos proof)"
  using assms(1,3)
proof (induction hs arbitrary: pos rule: level_induct [where env = env])
  case (single hs)
  then show ?case by (simp add: merkle_proof_calculator.simps merkle_root_single tree_height.simps)
next
  case (level hs)
  let ?hs = "pad_even hs" and ?next = "pair_hashes env (pad_even hs)"
  let ?j = "if even (unat pos) then unat pos + 1 else unat pos - 1"
  have i: "unat pos < length ?hs" using level.prems by (simp add: length_pad_even)
  note sib = sibling_index(1) [OF i] sibling_index(2) [OF i, where env = env]
  have "unat (pos div 2) < length ?next"
    using level.prems unfolding length_next_level unat_div_2 [OF assms(2)] by linarith
  from level.IH [OF this] obtain rest where
    rest: "merkle_proof_calculator env ?next (pos div 2) = Inr rest"
      "length rest = tree_height (length ?next)"
      "merkle_root_calculator env ?next = Inr (compute_root_from_merkle_proof env (?next ! unat (pos div 2)) (pos div 2) rest)"
    by blast
  have "merkle_proof_calculator env hs pos = Inr (?hs ! ?j # rest)"
    unfolding merkle_proof_calculator.simps [of env hs pos] odd_word_iff(1) [OF assms(2)]
    using level.hyps rest(1) sib(1) i by (auto simp: nth_res_def Let_def)
  moreover have "length (?hs ! ?j # rest) = tree_height (length hs)"
    using level.hyps rest(2) by (simp add: tree_height.simps [of "length hs"] length_next_level [simplified])
  moreover have "compute_root_from_merkle_proof env (hs ! unat pos) pos (?hs ! ?j # rest) =
      compute_root_from_merkle_proof env (?next ! unat (pos div 2)) (pos div 2) rest"
    using sib(2) level.prems
    unfolding compute_root_from_merkle_proof.simps odd_word_iff(2) [OF assms(2)] unat_div_2 [OF assms(2)]
    by (auto simp: nth_pad split: if_splits)
  ultimately show ?case using rest(3) merkle_root_step [OF level.hyps(1), of env] by simp
qed

section \<open>Accepted proofs are for an element of the tree\<close>

text \<open>
  Soundness rests on the collision resistance of the hash: all pairs that are hashed to build the
  tree, and the pairs hashed along the given path, must have distinct hashes.
\<close>

fun path_pairs :: "host \<Rightarrow> h256 \<Rightarrow> nat \<Rightarrow> h256 list \<Rightarrow> (h256 \<times> h256) list" where
  "path_pairs env h i [] = []"
| "path_pairs env h i (p # ps) =
     (let pair = (if even i then (h, p) else (p, h))
      in pair # path_pairs env (compute_hash env (fst pair) (snd pair)) (i div 2) ps)"

fun pairs_of :: "h256 list \<Rightarrow> (h256 \<times> h256) list" where
  "pairs_of (a # b # hs) = (a, b) # pairs_of hs"
| "pairs_of hs = []"

function tree_pairs :: "host \<Rightarrow> h256 list \<Rightarrow> (h256 \<times> h256) list" where
  "tree_pairs env hs =
     (if length hs > 1 then pairs_of (pad_even hs) @ tree_pairs env (pair_hashes env (pad_even hs)) else [])"
  by pat_completeness auto
termination
  by (relation "measure (\<lambda>(env, hs). length hs)") (auto simp: length_pad_even elim!: oddE)

declare tree_pairs.simps [simp del]

definition collision_free_pairs :: "host \<Rightarrow> (h256 \<times> h256) list \<Rightarrow> bool" where
  "collision_free_pairs env ps \<longleftrightarrow> (\<forall>(a, b) \<in> set ps. \<forall>(c, d) \<in> set ps.
     compute_hash env a b = compute_hash env c d \<longrightarrow> a = c \<and> b = d)"

lemma pairs_of_nth: "2 * k + 1 < length hs \<Longrightarrow> (hs ! (2 * k), hs ! (2 * k + 1)) \<in> set (pairs_of hs)"
proof (induction hs arbitrary: k rule: pairs_of.induct)
  case (1 a b hs)
  then show ?case by (cases k) auto
qed auto

lemma collision_freeD:
  "collision_free_pairs env ps \<Longrightarrow> (a, b) \<in> set ps \<Longrightarrow> (c, d) \<in> set ps \<Longrightarrow>
   compute_hash env a b = compute_hash env c d \<Longrightarrow> a = c \<and> b = d"
  unfolding collision_free_pairs_def by fast

lemma collision_free_mono:
  "collision_free_pairs env ps \<Longrightarrow> set qs \<subseteq> set ps \<Longrightarrow> collision_free_pairs env qs"
  unfolding collision_free_pairs_def by fast

text \<open>One level down: the child of a node of the tree that the path names is a child in the tree.\<close>

lemma child_of_node:
  assumes m: "m < length (pair_hashes env (pad_even hs))"
    and eq: "(if even i then compute_hash env h p else compute_hash env p h) = pair_hashes env (pad_even hs) ! m"
    and free: "collision_free_pairs env ((if even i then (h, p) else (p, h)) # pairs_of (pad_even hs))"
  shows "h = pad_even hs ! (2 * m + i mod 2) \<and> 2 * m + i mod 2 < length (pad_even hs)"
proof -
  have lt: "2 * m + 1 < length (pad_even hs)" using m by auto
  note pair = pairs_of_nth [OF lt] and node = nth_pair_hashes [OF lt, of env]
  show ?thesis
  proof (cases "even i")
    case True
    with eq node have "compute_hash env h p = compute_hash env (pad_even hs ! (2 * m)) (pad_even hs ! (2 * m + 1))" by simp
    from collision_freeD [OF free _ _ this] True pair have "h = pad_even hs ! (2 * m)" by simp
    with True lt show ?thesis by (simp add: even_iff_mod_2_eq_zero)
  next
    case False
    with eq node have "compute_hash env p h = compute_hash env (pad_even hs ! (2 * m)) (pad_even hs ! (2 * m + 1))" by simp
    from collision_freeD [OF free _ _ this] False pair have "h = pad_even hs ! (2 * m + 1)" by simp
    with False lt show ?thesis by (simp add: odd_iff_mod_2_eq_one)
  qed
qed

lemma path_root_sound:
  assumes "hs \<noteq> []" "length ps = tree_height (length hs)"
    and "merkle_root_calculator env hs = Inr (path_root env h i ps)"
    and "collision_free_pairs env (path_pairs env h i ps @ tree_pairs env hs)"
  shows "\<exists>m < length hs. h = hs ! m \<and> (i mod 2 ^ length ps < length hs \<longrightarrow> m = i mod 2 ^ length ps)"
  using assms
proof (induction hs arbitrary: h i ps rule: level_induct [where env = env])
  case (single hs)
  then show ?case by (auto simp: merkle_root_single tree_height.simps)
next
  case (level hs)
  let ?next = "pair_hashes env (pad_even hs)"
  from level.prems level.hyps obtain p qs where ps: "ps = p # qs"
    by (cases ps) (simp_all add: tree_height.simps [of "length hs"])
  let ?h = "if even i then compute_hash env h p else compute_hash env p h"
  have tp: "tree_pairs env hs = pairs_of (pad_even hs) @ tree_pairs env ?next"
    using level.hyps by (simp add: tree_pairs.simps [of env hs])
  have pp: "path_pairs env h i ps = (if even i then (h, p) else (p, h)) # path_pairs env ?h (i div 2) qs"
    by (simp add: ps)
  have "length qs = tree_height (length ?next)"
    using level.prems(1) level.hyps unfolding length_next_level by (simp add: ps tree_height.simps [of "length hs"])
  moreover have "merkle_root_calculator env ?next = Inr (path_root env ?h (i div 2) qs)"
    using level.prems(2) merkle_root_step [OF level.hyps, of env] by (simp add: ps)
  moreover have "collision_free_pairs env (path_pairs env ?h (i div 2) qs @ tree_pairs env ?next)"
    by (rule collision_free_mono [OF level.prems(3)]) (auto simp: tp pp)
  ultimately obtain m where m: "m < length ?next" "?h = ?next ! m"
    "i div 2 mod 2 ^ length qs < length ?next \<longrightarrow> m = i div 2 mod 2 ^ length qs"
    using level.IH by blast
  have "collision_free_pairs env ((if even i then (h, p) else (p, h)) # pairs_of (pad_even hs))"
    by (rule collision_free_mono [OF level.prems(3)]) (auto simp: tp pp)
  from child_of_node [OF m(1,2) this]
  have h: "h = pad_even hs ! (2 * m + i mod 2)" and lt: "2 * m + i mod 2 < length (pad_even hs)" by auto
  have idx: "i mod 2 ^ length ps = 2 * (i div 2 mod 2 ^ length qs) + i mod 2"
    by (simp add: ps mod_mult2_eq)
  show ?case
  proof (cases "2 * m + i mod 2 < length hs")
    case True
    have "m = i div 2 mod 2 ^ length qs" if "i mod 2 ^ length ps < length hs"
      using that m(3) unfolding length_next_level idx by linarith
    then show ?thesis using True h unfolding idx by (auto simp: nth_pad)
  next
    case False
    then have "h = last hs" using lt h by (auto simp: pad_even_def nth_append split: if_splits)
    moreover have "\<not> i mod 2 ^ length ps < length hs"
      using False m(3) unfolding length_next_level idx by linarith
    moreover have "hs \<noteq> []" using level.hyps by auto
    ultimately show ?thesis by (intro exI [of _ "length hs - 1"]) (simp add: last_conv_nth)
  qed
qed

lemma merkle_proof_sound:
  fixes pos :: "'w::len word"
  assumes "1 < LENGTH('w)" "hs \<noteq> []" "length ps = tree_height (length hs)"
    and "merkle_root_calculator env hs = Inr (compute_root_from_merkle_proof env h pos ps)"
    and "collision_free_pairs env (path_pairs env h (unat pos) ps @ tree_pairs env hs)"
  shows "\<exists>m < length hs. h = hs ! m \<and>
    (unat pos mod 2 ^ length ps < length hs \<longrightarrow> m = unat pos mod 2 ^ length ps)"
  using path_root_sound [of hs ps env h "unat pos"] assms by (simp add: compute_root_path)

section \<open>The length of a path from the first leaf\<close>

lemma path_root_append: "path_root env h i (ps @ qs) = path_root env (path_root env h i ps) (i div 2 ^ length ps) qs"
  by (induction ps arbitrary: h i) (auto simp: div_mult2_eq)

lemma path_pairs_append:
  "path_pairs env h i (ps @ qs) = path_pairs env h i ps @ path_pairs env (path_root env h i ps) (i div 2 ^ length ps) qs"
  by (induction ps arbitrary: h i) (auto simp: Let_def div_mult2_eq)

lemma path_root_is_pair:
  "ps \<noteq> [] \<Longrightarrow> \<exists>(a, b) \<in> set (path_pairs env h i ps). path_root env h i ps = compute_hash env a b"
proof (induction ps arbitrary: h i)
  case (Cons p ps)
  show ?case
  proof (cases "ps = []")
    case True
    then show ?thesis by (simp add: Let_def)
  next
    case False
    then show ?thesis using Cons.IH [OF False] by (fastforce simp: Let_def)
  qed
qed simp

lemma next_level_is_pair:
  assumes "1 < length hs" "h \<in> set (pair_hashes env (pad_even hs))"
  shows "\<exists>(a, b) \<in> set (tree_pairs env hs). h = compute_hash env a b"
proof -
  from assms(2) obtain k where k: "k < length (pair_hashes env (pad_even hs))" "h = pair_hashes env (pad_even hs) ! k"
    by (auto simp: in_set_conv_nth)
  then have lt: "2 * k + 1 < length (pad_even hs)" by auto
  have "(pad_even hs ! (2 * k), pad_even hs ! (2 * k + 1)) \<in> set (tree_pairs env hs)"
    using pairs_of_nth [OF lt] assms(1) by (simp add: tree_pairs.simps [of env hs])
  then show ?thesis using nth_pair_hashes [OF lt, of env] k(2) by blast
qed

text \<open>
  A path that starts in a leaf which is itself the hash of no pair cannot be shorter than the tree is
  high, and if it starts in the first leaf, not longer either.
\<close>

definition no_inner_node :: "host \<Rightarrow> h256 \<Rightarrow> (h256 \<times> h256) list \<Rightarrow> bool" where
  "no_inner_node env h ps \<longleftrightarrow> (\<forall>(a, b) \<in> set ps. compute_hash env a b \<noteq> h)"

lemma path_not_shorter:
  assumes "hs \<noteq> []" "length ps \<le> tree_height (length hs)"
    and "merkle_root_calculator env hs = Inr (path_root env h i ps)"
    and "collision_free_pairs env (path_pairs env h i ps @ tree_pairs env hs)"
    and "no_inner_node env h (tree_pairs env hs)"
  shows "length ps = tree_height (length hs)"
  using assms
proof (induction hs rule: level_induct [where env = env])
  case (single hs)
  then show ?case by (simp add: tree_height.simps)
next
  case (level hs)
  let ?next = "pair_hashes env (pad_even hs)"
  have H: "tree_height (length hs) = Suc (tree_height (length ?next))"
    using level.hyps unfolding length_next_level by (simp add: tree_height.simps [of "length hs"])
  have tp: "set (tree_pairs env ?next) \<subseteq> set (tree_pairs env hs)"
    using level.hyps by (auto simp: tree_pairs.simps [of env hs])
  show ?case
  proof (rule ccontr)
    assume ne: "length ps \<noteq> tree_height (length hs)"
    have root: "merkle_root_calculator env ?next = Inr (path_root env h i ps)"
      using level.prems(2) merkle_root_step [OF level.hyps, of env] by simp
    have cf: "collision_free_pairs env (path_pairs env h i ps @ tree_pairs env ?next)"
      by (rule collision_free_mono [OF level.prems(3)]) (use tp in auto)
    have "no_inner_node env h (tree_pairs env ?next)"
      using level.prems(4) tp unfolding no_inner_node_def by blast
    then have len: "length ps = tree_height (length ?next)"
      using level.IH root cf ne level.prems(1) H by simp
    have "length ?next \<noteq> 0" unfolding length_next_level using level.hyps by linarith
    then have "?next \<noteq> []" by blast
    from path_root_sound [OF this len root cf] have "h \<in> set ?next" by auto
    from next_level_is_pair [OF level.hyps this] show False
      using level.prems(4) by (auto simp: no_inner_node_def)
  qed
qed

lemma coinbase_path_length:
  assumes hs: "hs \<noteq> []" and root: "merkle_root_calculator env hs = Inr (path_root env (hs ! 0) 0 ps)"
    and cf: "collision_free_pairs env (path_pairs env (hs ! 0) 0 ps @ tree_pairs env hs)"
    and leaf: "no_inner_node env (hs ! 0) (path_pairs env (hs ! 0) 0 ps @ tree_pairs env hs)"
  shows "length ps = tree_height (length hs)"
proof (cases "length ps \<le> tree_height (length hs)")
  case True
  then show ?thesis
    by (rule path_not_shorter [OF hs _ root cf]) (use leaf in \<open>auto simp: no_inner_node_def\<close>)
next
  case False
  define k where "k = length ps - tree_height (length hs)"
  define h' where "h' = path_root env (hs ! 0) 0 (take k ps)"
  have ps: "ps = take k ps @ drop k ps" "length (drop k ps) = tree_height (length hs)"
    using False by (simp_all add: k_def)
  have "merkle_root_calculator env hs = Inr (path_root env h' 0 (drop k ps))"
    using root path_root_append [of env "hs ! 0" 0 "take k ps" "drop k ps"] by (simp add: h'_def)
  moreover have "collision_free_pairs env (path_pairs env h' 0 (drop k ps) @ tree_pairs env hs)"
    by (rule collision_free_mono [OF cf]) (use path_pairs_append [of env "hs ! 0" 0 "take k ps" "drop k ps"] in \<open>auto simp: h'_def\<close>)
  ultimately have "h' = hs ! 0"
    using path_root_sound [OF hs ps(2), of env h' 0] hs by auto
  moreover have "take k ps \<noteq> []" using False by (auto simp: k_def)
  ultimately show ?thesis
    using path_root_is_pair [of "take k ps" env "hs ! 0" 0] leaf path_pairs_append [of env "hs ! 0" 0 "take k ps" "drop k ps"]
    by (fastforce simp: no_inner_node_def h'_def)
qed

end
