(* ===== verification/Network.thy ===== *)
theory Network
  imports Headers "HOL-Library.Signed_Division"
begin

text \<open>
  Consensus parameters of the supported chains: \<^verbatim>\<open>btc-types/src/network.rs\<close>. Rust's \<open>i64\<close> is \<open>int\<close> with
  the range check of \<open>i64_of\<close> after every arithmetic operation, and its division truncates (\<open>sdiv\<close>).
  The lemmas at the end relate each chain's limit in compact form to its limit as a number.
\<close>

section \<open>Signed 64-bit arithmetic\<close>

type_synonym i64 = int

definition i64_of :: "int \<Rightarrow> i64 result" where
  "i64_of x = (if - (2 ^ 63) \<le> x \<and> x < 2 ^ 63 then Inr x else Inl Overflow)"

definition u64_try_from_i64 :: "i64 \<Rightarrow> u64 result" where
  "u64_try_from_i64 x = (if 0 \<le> x then Inr (word_of_int x) else Inl Unwrap)"

definition i64_from_u32 :: "u32 \<Rightarrow> i64" where "i64_from_u32 w = int (unat w)"

section \<open>Parameters\<close>

definition MEDIAN_TIME_SPAN :: nat where "MEDIAN_TIME_SPAN = 11"
definition MAX_FUTURE_BLOCK_TIME_MTP :: u32 where "MAX_FUTURE_BLOCK_TIME_MTP = 90 * 60"
definition MAX_FUTURE_BLOCK_TIME_LOCAL :: u32 where "MAX_FUTURE_BLOCK_TIME_LOCAL = 2 * 60 * 60"

record network_config =
  pow_target_timespan :: i64
  difficulty_adjustment_interval :: u64
  proof_of_work_limit_bits :: u32
  pow_target_spacing :: u32
  pow_allow_min_difficulty_blocks :: bool
  pow_limit :: u256

record dogecoin_config = network_config +
  config_aux_chain_id :: i32

record zcash_config =
  z_proof_of_work_limit_bits :: u32
  z_pow_limit :: u256
  pow_averaging_window :: i64
  post_blossom_pow_target_spacing :: i64
  pow_max_adjust_down :: i64
  pow_max_adjust_up :: i64
  pow_allow_min_difficulty_blocks_after_height :: "u64 option"

fun get_bitcoin_config :: "network \<Rightarrow> network_config" where
  "get_bitcoin_config Mainnet =
     \<lparr>pow_target_timespan = 2016 * 600,
      difficulty_adjustment_interval = 2016,
      proof_of_work_limit_bits = 0x1d00ffff,
      pow_target_spacing = 600,
      pow_allow_min_difficulty_blocks = False,
      pow_limit = U256 0x00000000ffffffffffffffffffffffff 0xffffffffffffffffffffffffffffffff\<rparr>"
| "get_bitcoin_config Testnet =
     \<lparr>pow_target_timespan = 2016 * 600,
      difficulty_adjustment_interval = 2016,
      proof_of_work_limit_bits = 0x1d00ffff,
      pow_target_spacing = 600,
      pow_allow_min_difficulty_blocks = True,
      pow_limit = U256 0x00000000ffffffffffffffffffffffff 0xffffffffffffffffffffffffffffffff\<rparr>"

fun get_litecoin_config :: "network \<Rightarrow> network_config" where
  "get_litecoin_config Mainnet =
     \<lparr>pow_target_timespan = 2016 * 150,
      difficulty_adjustment_interval = 2016,
      proof_of_work_limit_bits = 0x1e0fffff,
      pow_target_spacing = 150,
      pow_allow_min_difficulty_blocks = False,
      pow_limit = U256 0x00000fffffffffffffffffffffffffff 0xffffffffffffffffffffffffffffffff\<rparr>"
| "get_litecoin_config Testnet =
     \<lparr>pow_target_timespan = 2016 * 150,
      difficulty_adjustment_interval = 2016,
      proof_of_work_limit_bits = 0x1e0fffff,
      pow_target_spacing = 150,
      pow_allow_min_difficulty_blocks = True,
      pow_limit = U256 0x00000fffffffffffffffffffffffffff 0xffffffffffffffffffffffffffffffff\<rparr>"

fun get_dogecoin_config :: "network \<Rightarrow> dogecoin_config" where
  "get_dogecoin_config Mainnet =
     \<lparr>pow_target_timespan = 60,
      difficulty_adjustment_interval = 1,
      proof_of_work_limit_bits = 0x1e0fffff,
      pow_target_spacing = 60,
      pow_allow_min_difficulty_blocks = False,
      pow_limit = U256 0x00000fffffffffffffffffffffffffff 0xffffffffffffffffffffffffffffffff,
      config_aux_chain_id = 0x0062\<rparr>"
| "get_dogecoin_config Testnet =
     \<lparr>pow_target_timespan = 60,
      difficulty_adjustment_interval = 1,
      proof_of_work_limit_bits = 0x1e0fffff,
      pow_target_spacing = 60,
      pow_allow_min_difficulty_blocks = True,
      pow_limit = U256 0x00000fffffffffffffffffffffffffff 0xffffffffffffffffffffffffffffffff,
      config_aux_chain_id = 0x0062\<rparr>"

fun get_zcash_config :: "network \<Rightarrow> zcash_config" where
  "get_zcash_config Mainnet =
     \<lparr>z_proof_of_work_limit_bits = 0x1f07ffff,
      z_pow_limit = U256 0x0007ffffffffffffffffffffffffffff 0xffffffffffffffffffffffffffffffff,
      pow_averaging_window = 17,
      post_blossom_pow_target_spacing = 75,
      pow_max_adjust_down = 32,
      pow_max_adjust_up = 16,
      pow_allow_min_difficulty_blocks_after_height = None\<rparr>"
| "get_zcash_config Testnet =
     \<lparr>z_proof_of_work_limit_bits = 0x2007ffff,
      z_pow_limit = U256 0x07ffffffffffffffffffffffffffffff 0xffffffffffffffffffffffffffffffff,
      pow_averaging_window = 17,
      post_blossom_pow_target_spacing = 75,
      pow_max_adjust_down = 32,
      pow_max_adjust_up = 16,
      pow_allow_min_difficulty_blocks_after_height = Some 299187\<rparr>"

definition z_pow_target_spacing :: "zcash_config \<Rightarrow> i64" where
  "z_pow_target_spacing config = post_blossom_pow_target_spacing config"

definition averaging_window_timespan :: "zcash_config \<Rightarrow> i64 result" where
  "averaging_window_timespan config = i64_of (pow_averaging_window config * z_pow_target_spacing config)"

definition min_actual_timespan :: "zcash_config \<Rightarrow> i64 result" where
  "min_actual_timespan config =
     rbind (averaging_window_timespan config) (\<lambda>span.
     rbind (i64_of (100 - pow_max_adjust_up config)) (\<lambda>pct.
     rbind (i64_of (span * pct)) (\<lambda>p. Inr (p sdiv 100))))"

definition max_actual_timespan :: "zcash_config \<Rightarrow> i64 result" where
  "max_actual_timespan config =
     rbind (averaging_window_timespan config) (\<lambda>span.
     rbind (i64_of (100 + pow_max_adjust_down config)) (\<lambda>pct.
     rbind (i64_of (span * pct)) (\<lambda>p. Inr (p sdiv 100))))"

section \<open>Sanity of the parameters\<close>

lemma i64_of_Inr [result_simps]: "i64_of x = Inr y \<longleftrightarrow> y = x \<and> - (2 ^ 63) \<le> x \<and> x < 2 ^ 63"
  by (auto simp: i64_of_def)

lemma zcash_timespans:
  "averaging_window_timespan (get_zcash_config n) = Inr 1275"
  "min_actual_timespan (get_zcash_config n) = Inr 1071"
  "max_actual_timespan (get_zcash_config n) = Inr 1683"
  by (cases n; simp add: averaging_window_timespan_def min_actual_timespan_def max_actual_timespan_def
        z_pow_target_spacing_def i64_of_def signed_divide_int_def)+

text \<open>
  The compact form of each limit is what \<open>target_to_bits\<close> makes of the limit, so a retarget that hits
  the limit asks for exactly \<open>proof_of_work_limit_bits\<close>.
\<close>

lemma val_limits:
  "val (pow_limit (get_bitcoin_config n)) = 2 ^ 224 - 1"
  "val (pow_limit (get_litecoin_config n)) = 2 ^ 236 - 1"
  "val (pow_limit (get_dogecoin_config n)) = 2 ^ 236 - 1"
  "val (z_pow_limit (get_zcash_config Mainnet)) = 2 ^ 243 - 1"
  "val (z_pow_limit (get_zcash_config Testnet)) = 2 ^ 251 - 1"
  by (cases n; simp add: val_def)+

lemma limit_bits:
  "target_to_bits (pow_limit (get_bitcoin_config n)) = Inr (proof_of_work_limit_bits (get_bitcoin_config n))"
  "target_to_bits (pow_limit (get_litecoin_config n)) = Inr (proof_of_work_limit_bits (get_litecoin_config n))"
  "target_to_bits (pow_limit (get_dogecoin_config n)) = Inr (proof_of_work_limit_bits (get_dogecoin_config n))"
  "target_to_bits (z_pow_limit (get_zcash_config n)) = Inr (z_proof_of_work_limit_bits (get_zcash_config n))"
proof -
  show "target_to_bits (pow_limit (get_bitcoin_config n)) = Inr (proof_of_work_limit_bits (get_bitcoin_config n))"
    by (rule target_to_bits_ones [OF val_limits(1)]) (cases n; simp add: Let_def)+
  show "target_to_bits (pow_limit (get_litecoin_config n)) = Inr (proof_of_work_limit_bits (get_litecoin_config n))"
    by (rule target_to_bits_ones [OF val_limits(2)]) (cases n; simp add: Let_def)+
  show "target_to_bits (pow_limit (get_dogecoin_config n)) = Inr (proof_of_work_limit_bits (get_dogecoin_config n))"
    by (rule target_to_bits_ones [OF val_limits(3)]) (cases n; simp add: Let_def)+
  show "target_to_bits (z_pow_limit (get_zcash_config n)) = Inr (z_proof_of_work_limit_bits (get_zcash_config n))"
  proof (cases n)
    case Mainnet
    show ?thesis unfolding Mainnet by (rule target_to_bits_ones [OF val_limits(4)]) (simp_all add: Let_def)
  next
    case Testnet
    show ?thesis unfolding Testnet by (rule target_to_bits_ones [OF val_limits(5)]) (simp_all add: Let_def)
  qed
qed

end
