(* ===== verification/Light_Client.thy ===== *)
theory Light_Client
  imports Merkle Network
begin

text \<open>
  The contract: \<^verbatim>\<open>contract/src/lib.rs\<close> and \<^verbatim>\<open>contract/src/utils.rs\<close>. The state is the record \<open>client\<close>;
  a \<open>LookupMap\<close> is a partial function. A method takes the environment of the call and the state and
  returns a panic or its result; logging is left out. The code that depends on the chain the contract
  is built for (a cargo feature) is collected in the record \<open>chain\<close> at the end, whose instances are
  in the theories of the four chains.

  The one loop with no bound of its own, the walk along a fork in \<open>reorg_chain\<close>, runs as long as the
  gas of the call allows.
\<close>

section \<open>The state and its elementary updates\<close>

record 'a client =
  mainchain_height_to_header :: "u64 \<rightharpoonup> h256"
  mainchain_header_to_height :: "h256 \<rightharpoonup> u64"
  mainchain_tip_blockhash :: h256
  mainchain_initial_blockhash :: h256
  headers_pool :: "h256 \<rightharpoonup> 'a ext_header"
  skip_pow_verification :: bool
  gc_threshold :: u64
  network :: network

definition ERR_KEY_NOT_EXIST :: panic where
  "ERR_KEY_NOT_EXIST = Panic ''ERR_KEY_NOT_EXIST''"

definition store_block_header :: "'a ext_header \<Rightarrow> 'a client \<Rightarrow> 'a client" where
  "store_block_header header s =
     s\<lparr>mainchain_height_to_header := (mainchain_height_to_header s)(block_height header \<mapsto> block_hash header),
       mainchain_header_to_height := (mainchain_header_to_height s)(block_hash header \<mapsto> block_height header),
       headers_pool := (headers_pool s)(block_hash header \<mapsto> header)\<rparr>"

definition remove_block_header :: "h256 \<Rightarrow> 'a client \<Rightarrow> 'a client" where
  "remove_block_header header_block_hash s =
     s\<lparr>mainchain_header_to_height := (mainchain_header_to_height s)(header_block_hash := None),
       headers_pool := (headers_pool s)(header_block_hash := None)\<rparr>"

definition store_fork_header :: "'a ext_header \<Rightarrow> 'a client \<Rightarrow> 'a client" where
  "store_fork_header header s = s\<lparr>headers_pool := (headers_pool s)(block_hash header \<mapsto> header)\<rparr>"

section \<open>Block lookups\<close>

definition get_prev_header :: "'a client \<Rightarrow> 'a header_base_scheme \<Rightarrow> 'a ext_header result" where
  "get_prev_header s current_header =
     get_or (Panic ''PrevBlockNotFound'') (headers_pool s (prev_block_hash current_header))"

definition get_header_by_height :: "'a client \<Rightarrow> u64 \<Rightarrow> 'a ext_header result" where
  "get_header_by_height s height =
     get_or ERR_KEY_NOT_EXIST (Option.bind (mainchain_height_to_header s height) (headers_pool s))"

text \<open>
  \<open>get_median_time_past\<close> over any \<open>BlocksGetter\<close>: the loop fills the slots of the array in order, each
  followed by a step to the previous block.
\<close>

fun collect_times :: "('a header_base_scheme \<Rightarrow> 'a ext_header result) \<Rightarrow> nat \<Rightarrow> 'a ext_header \<Rightarrow>
    (u32 list \<times> 'a ext_header) result" where
  "collect_times get_prev 0 current_header = Inr ([], current_header)"
| "collect_times get_prev (Suc n) current_header =
     rbind (get_prev (block_header current_header)) (\<lambda>prev.
     rbind (collect_times get_prev n prev) (\<lambda>(times, last).
     Inr (time (block_header current_header) # times, last)))"

definition median_of :: "u32 list \<Rightarrow> u32" where
  "median_of median_time = sort median_time ! (length median_time div 2)"

definition get_median_time_past ::
    "'a ext_header \<Rightarrow> ('a header_base_scheme \<Rightarrow> 'a ext_header result) \<Rightarrow> u32 result" where
  "get_median_time_past header get_prev =
     rbind (collect_times get_prev MEDIAN_TIME_SPAN header) (\<lambda>(median_time, last). Inr (median_of median_time))"

section \<open>Submission of a block\<close>

text \<open>The first loop of \<open>reorg_chain\<close>: main chain blocks above the fork's tip.\<close>

definition remove_above :: "u64 \<Rightarrow> 'a client \<Rightarrow> 'a client result" where
  "remove_above height s =
     rbind (get_or (Panic ''cannot get a block'') (mainchain_height_to_header s height)) (\<lambda>current_main_chain_blockhash.
     Inr ((remove_block_header current_main_chain_blockhash s)
       \<lparr>mainchain_height_to_header := (mainchain_height_to_header s)(height := None)\<rparr>))"

text \<open>The second loop: from the fork's tip down to a block of the main chain.\<close>

fun promote_fork :: "nat \<Rightarrow> 'a ext_header \<Rightarrow> 'a client \<Rightarrow> 'a client result" where
  "promote_fork gas fork_header_cursor s =
     (if mainchain_header_to_height s (block_hash fork_header_cursor) \<noteq> None then Inr s
      else case gas of 0 \<Rightarrow> Inl GasExceeded
      | Suc gas' \<Rightarrow>
        (let prev_hash = prev_block_hash (block_header fork_header_cursor);
             current_block_hash = block_hash fork_header_cursor;
             current_height = block_height fork_header_cursor;
             main_chain_block = mainchain_height_to_header s current_height;
             s1 = s\<lparr>mainchain_height_to_header := (mainchain_height_to_header s)(current_height \<mapsto> current_block_hash),
                    mainchain_header_to_height := (mainchain_header_to_height s)(current_block_hash \<mapsto> current_height)\<rparr>;
             s2 = (case main_chain_block of None \<Rightarrow> s1
                   | Some current_main_chain_blockhash \<Rightarrow> remove_block_header current_main_chain_blockhash s1)
         in rbind (get_or (Panic ''previous fork block should be there'') (headers_pool s2 prev_hash)) (\<lambda>cursor'.
            promote_fork gas' cursor' s2)))"

declare promote_fork.simps [simp del]

definition reorg_chain :: "host \<Rightarrow> 'a ext_header \<Rightarrow> u64 \<Rightarrow> 'a client \<Rightarrow> 'a client result" where
  "reorg_chain env fork_tip_header last_main_chain_block_height s =
     (let fork_tip_height = block_height fork_tip_header
      in rbind
           (if last_main_chain_block_height > fork_tip_height
            then rbind (checked_add fork_tip_height 1) (\<lambda>from.
                 for_each remove_above (word_range_incl from last_main_chain_block_height) s)
            else Inr s) (\<lambda>s1.
         rbind (promote_fork (loop_gas env) fork_tip_header s1) (\<lambda>s2.
         Inr (s2\<lparr>mainchain_tip_blockhash := block_hash fork_tip_header\<rparr>))))"

definition submit_block_header_inner ::
    "host \<Rightarrow> 'a ext_header \<Rightarrow> 'a ext_header \<Rightarrow> 'a client \<Rightarrow> 'a client result" where
  "submit_block_header_inner env current_header prev_block_header s =
     (if block_hash prev_block_header = mainchain_tip_blockhash s then
        if mainchain_tip_blockhash s \<noteq> prev_block_hash (block_header current_header) then Inl AssertFailed
        else Inr ((store_block_header current_header s)\<lparr>mainchain_tip_blockhash := block_hash current_header\<rparr>)
      else
        rbind (get_or (Panic ''tip should be in a header pool'') (headers_pool s (mainchain_tip_blockhash s)))
          (\<lambda>main_chain_tip_header.
        let s1 = store_fork_header current_header s
        in if chain_work current_header > chain_work main_chain_tip_header
           then reorg_chain env current_header (block_height main_chain_tip_header) s1
           else Inr s1))"

text \<open>The stored form of a new block: its work is added to its parent's, its height is one more.\<close>

definition add_work :: "u256 \<Rightarrow> u32 \<Rightarrow> u256 result" where
  "add_work prev_work header_bits =
     rbind (work_from_bits header_bits) (\<lambda>work.
     let (sum, overflow) = u256_overflowing_add prev_work work
     in req (\<not> overflow) ''Addition of U256 values overflowed'' (Inr sum))"

definition pow_ok :: "h256 \<Rightarrow> u32 \<Rightarrow> bool" where
  "pow_ok pow_hash header_bits \<longleftrightarrow> u256_from_le_bytes (h256_bytes pow_hash) \<le> target_from_bits header_bits"

text \<open>
  \<open>submit_block_header\<close> of all chains but Dogecoin. The header's hash, its proof-of-work hash, its light
  form and \<open>check_pow\<close> are those of the chain.
\<close>

definition submit_block_header ::
    "(host \<Rightarrow> 'h header_base_scheme \<Rightarrow> h256) \<Rightarrow> (host \<Rightarrow> 'h header_base_scheme \<Rightarrow> h256) \<Rightarrow>
     ('h header_base_scheme \<Rightarrow> 'a header_base_scheme) \<Rightarrow>
     (host \<Rightarrow> 'a client \<Rightarrow> 'h header_base_scheme \<Rightarrow> 'a ext_header \<Rightarrow> unit result) \<Rightarrow>
     host \<Rightarrow> 'h header_base_scheme \<Rightarrow> bool \<Rightarrow> 'a client \<Rightarrow> 'a client result" where
  "submit_block_header hash_of pow_hash_of light check_pow env header skip_pow s =
     rbind (get_prev_header s (light header)) (\<lambda>prev_block_header.
     let current_block_hash = hash_of env header in
     rbind (add_work (chain_work prev_block_header) (bits header)) (\<lambda>current_block_computed_chain_work.
     rbind (checked_add 1 (block_height prev_block_header)) (\<lambda>height.
     let current_header = \<lparr>block_header = light header, block_hash = current_block_hash,
           chain_work = current_block_computed_chain_work, block_height = height\<rparr> in
     rbind (if skip_pow then Inr ()
            else rbind (check_pow env s header prev_block_header) (\<lambda>_.
                 req (pow_ok (pow_hash_of env header) (bits header)) ''block should have correct pow'' (Inr ()))) (\<lambda>_.
     submit_block_header_inner env current_header prev_block_header s))))"

section \<open>Garbage collection\<close>

text \<open>The guard that \<open>#[pause]\<close> inserts, without and with an excepted role.\<close>

definition pause_guard :: "host \<Rightarrow> string \<Rightarrow> role list \<Rightarrow> 'b result \<Rightarrow> 'b result" where
  "pause_guard env feature except_roles k =
     req (\<not> is_paused env feature \<or> (\<exists>r \<in> set except_roles. caller_has_role env r))
       ''Pausable: Method is paused'' k"

definition gc_remove :: "u64 \<Rightarrow> 'a client \<Rightarrow> 'a client result" where
  "gc_remove height s =
     rbind (get_or ERR_KEY_NOT_EXIST (mainchain_height_to_header s height)) (\<lambda>blockhash.
     Inr ((remove_block_header blockhash s)
       \<lparr>mainchain_height_to_header := (mainchain_height_to_header s)(height := None)\<rparr>))"

definition run_mainchain_gc :: "host \<Rightarrow> u64 \<Rightarrow> 'a client \<Rightarrow> 'a client result" where
  "run_mainchain_gc env batch_size s =
     pause_guard env ''run_mainchain_gc'' [UnrestrictedRunGC]
     (rbind (get_or ERR_KEY_NOT_EXIST (headers_pool s (mainchain_initial_blockhash s))) (\<lambda>initial_blockheader.
      rbind (get_or ERR_KEY_NOT_EXIST (headers_pool s (mainchain_tip_blockhash s))) (\<lambda>tip_blockheader.
      rbind (checked_sub (block_height tip_blockheader) (block_height initial_blockheader)) (\<lambda>diff.
      rbind (checked_add diff 1) (\<lambda>amount_of_headers_we_store.
      if amount_of_headers_we_store > gc_threshold s then
        rbind (checked_sub amount_of_headers_we_store (gc_threshold s)) (\<lambda>total_amount_to_remove.
        let selected_amount_to_remove = min total_amount_to_remove batch_size;
            start_removal_height = block_height initial_blockheader in
        rbind (checked_add (block_height initial_blockheader) selected_amount_to_remove) (\<lambda>end_removal_height.
        rbind (for_each gc_remove (word_range start_removal_height end_removal_height) s) (\<lambda>s1.
        rbind (get_or ERR_KEY_NOT_EXIST (mainchain_height_to_header s1 end_removal_height)) (\<lambda>initial.
        Inr (s1\<lparr>mainchain_initial_blockhash := initial\<rparr>)))))
      else Inr s)))))"

section \<open>The chain the contract is built for\<close>

text \<open>
  What the cargo features select: the block hash and the light form of a header, the checks on the
  arguments of \<open>init_genesis\<close>, how it wraps a header for submission, and \<open>submit_block_header\<close>.
  \<open>'h\<close> is the \<open>Header\<close>, \<open>'a\<close> the \<open>LightHeader\<close>, \<open>'b\<close> the \<open>BlockHeader\<close> that \<open>submit_blocks\<close> takes.
\<close>

record ('h, 'a, 'b) chain =
  header_hash :: "host \<Rightarrow> 'h header_base_scheme \<Rightarrow> h256"
  into_light :: "'h header_base_scheme \<Rightarrow> 'a header_base_scheme"
  genesis_check :: "network \<Rightarrow> u64 \<Rightarrow> nat \<Rightarrow> unit result"
  genesis_submission :: "'h header_base_scheme \<Rightarrow> 'b"
  submit_header :: "host \<Rightarrow> 'b \<Rightarrow> bool \<Rightarrow> 'a client \<Rightarrow> 'a client result"

definition init_genesis :: "('h, 'a, 'b) chain \<Rightarrow> host \<Rightarrow> h256 \<Rightarrow> u64 \<Rightarrow> 'h header_base_scheme list \<Rightarrow>
    'a client \<Rightarrow> 'a client result" where
  "init_genesis C env hash height submit_blocks s =
     (case submit_blocks of
        [] \<Rightarrow> Inl (Panic ''At least one block header must be submitted'')
      | header # rest \<Rightarrow>
        rbind (genesis_check C (network s) height (length submit_blocks)) (\<lambda>_.
        let current_block_hash = header_hash C env header in
        req (current_block_hash = hash) ''Invalid block hash''
        (rbind (work_from_bits (bits header)) (\<lambda>work.
         let ext = \<lparr>block_header = into_light C header, block_hash = current_block_hash,
               chain_work = work, block_height = height\<rparr>;
             s1 = (store_block_header ext s)\<lparr>mainchain_initial_blockhash := current_block_hash,
               mainchain_tip_blockhash := current_block_hash\<rparr>
         in for_each (\<lambda>h. submit_header C env (genesis_submission C h) True) rest s1))))"

definition init :: "('h, 'a, 'b) chain \<Rightarrow> host \<Rightarrow> 'h header_base_scheme init_args \<Rightarrow> 'a client result" where
  "init C env args =
     req (\<not> state_exists env) ''The contract has already been initialized''
     (req (is_self_call env) ''Method init is private''
     (let contract =
        \<lparr>mainchain_height_to_header = Map.empty,
         mainchain_header_to_height = Map.empty,
         mainchain_tip_blockhash = h256_default,
         mainchain_initial_blockhash = h256_default,
         headers_pool = Map.empty,
         skip_pow_verification = arg_skip_pow_verification args,
         gc_threshold = arg_gc_threshold args,
         network = arg_network args\<rparr>
      in req (acl_init_super_admin env) ''Failed to initialize super admin''
         (init_genesis C env (genesis_block_hash args) (genesis_block_height args) (submit_blocks_arg args) contract)))"

datatype promise_or_value = Transfer u128 | Value

definition trusted_relayer_guard :: "host \<Rightarrow> 'b result \<Rightarrow> 'b result" where
  "trusted_relayer_guard env k =
     req (is_trusted_relayer env \<or> caller_has_role env DAO \<or> caller_has_role env UnrestrictedSubmitBlocks)
       ''Relayer is not active'' k"

text \<open>\<open>env::storage_usage\<close> is what the runtime charges for the state that is stored at the time.\<close>

definition submit_blocks :: "('h, 'a, 'b) chain \<Rightarrow> ('a client \<Rightarrow> u64) \<Rightarrow> host \<Rightarrow> 'b list \<Rightarrow> 'a client \<Rightarrow>
    (promise_or_value \<times> 'a client) result" where
  "submit_blocks C storage_usage env headers s =
     pause_guard env ''submit_blocks'' []
     (trusted_relayer_guard env
     (let amount = attached_deposit env;
          initial_storage = storage_usage s;
          num_of_headers = word_of_nat (length headers) in
      rbind (for_each (\<lambda>header s. submit_header C env header (skip_pow_verification s) s) headers s) (\<lambda>s1.
      rbind (run_mainchain_gc env num_of_headers s1) (\<lambda>s2.
      let diff_storage_usage = saturating_sub_w (storage_usage s2) initial_storage;
          required_deposit = saturating_mul_w (storage_byte_cost env) (ucast diff_storage_usage) in
      req (amount \<ge> required_deposit) ''Required deposit''
      (let refund = saturating_sub_w amount required_deposit
       in Inr (if refund > 0 then Transfer refund else Value, s2))))))"

section \<open>Views\<close>

definition get_last_block_header :: "'a client \<Rightarrow> 'a ext_header result" where
  "get_last_block_header s = get_or ERR_KEY_NOT_EXIST (headers_pool s (mainchain_tip_blockhash s))"

definition get_last_block_height :: "'a client \<Rightarrow> u64 result" where
  "get_last_block_height s =
     rbind (get_or ERR_KEY_NOT_EXIST (headers_pool s (mainchain_tip_blockhash s))) (\<lambda>header. Inr (block_height header))"

definition get_block_hash_by_height :: "'a client \<Rightarrow> u64 \<Rightarrow> h256 option" where
  "get_block_hash_by_height s height = mainchain_height_to_header s height"

definition get_height_by_block_hash :: "'a client \<Rightarrow> h256 \<Rightarrow> u64 option" where
  "get_height_by_block_hash s blockhash = mainchain_header_to_height s blockhash"

definition get_mainchain_size :: "'a client \<Rightarrow> u64 result" where
  "get_mainchain_size s =
     rbind (get_or ERR_KEY_NOT_EXIST (headers_pool s (mainchain_initial_blockhash s))) (\<lambda>tail.
     rbind (get_or ERR_KEY_NOT_EXIST (headers_pool s (mainchain_tip_blockhash s))) (\<lambda>tip.
     rbind (checked_sub (block_height tip) (block_height tail)) (\<lambda>diff. checked_add diff 1)))"

definition get_last_n_blocks_hashes :: "'a client \<Rightarrow> u64 \<Rightarrow> u64 \<Rightarrow> h256 list result" where
  "get_last_n_blocks_hashes s skip limit =
     rbind (get_or (Panic ''heaviest block should be recorded'') (headers_pool s (mainchain_tip_blockhash s))) (\<lambda>tip.
     rbind (get_or (Panic ''initial block should be recorded'') (headers_pool s (mainchain_initial_blockhash s))) (\<lambda>initial.
     rbind (checked_sub (block_height tip) limit) (\<lambda>d1.
     rbind (checked_sub d1 skip) (\<lambda>d2.
     rbind (checked_add d2 1) (\<lambda>d3.
     let start_block_height = max (block_height initial) d3 in
     rbind (checked_sub (block_height tip) skip) (\<lambda>end_block_height.
     Inr (List.map_filter (mainchain_height_to_header s) (word_range_incl start_block_height end_block_height))))))))"

section \<open>Transaction inclusion\<close>

text \<open>\<open>usize::try_from\<close> of a \<open>u64\<close> on the 32-bit target.\<close>

definition usize_try_from :: "u64 \<Rightarrow> usize option" where
  "usize_try_from w = (if unat w < 2 ^ 32 then Some (ucast w) else None)"

definition verify_transaction_inclusion :: "host \<Rightarrow> 'a client \<Rightarrow> proof_args \<Rightarrow> bool result" where
  "verify_transaction_inclusion env s args =
     pause_guard env ''verify_transaction_inclusion'' []
     (req (confirmations args \<le> gc_threshold s)
        ''The required number of confirmations exceeds the number of blocks stored in memory''
     (rbind (get_or ERR_KEY_NOT_EXIST (headers_pool s (mainchain_tip_blockhash s))) (\<lambda>heaviest_block_header.
      rbind (get_or (Panic ''block does not belong to the current main chain'')
        (mainchain_header_to_height s (tx_block_blockhash args))) (\<lambda>target_block_height.
      rbind (checked_add (saturating_sub_w (block_height heaviest_block_header) target_block_height) 1) (\<lambda>confirmed.
      req (confirmed \<ge> confirmations args) ''Not enough blocks confirmed''
      (rbind (get_or (Panic ''cannot find requested transaction block'')
        (headers_pool s (tx_block_blockhash args))) (\<lambda>header.
       req (merkle_proof args \<noteq> []) ''Merkle proof is empty''
       (rbind (get_or Unwrap (usize_try_from (tx_index args))) (\<lambda>index.
        Inr (compute_root_from_merkle_proof env (tx_id args) index (merkle_proof args) =
             merkle_root (block_header header)))))))))))"

definition verify_transaction_inclusion_v2 :: "host \<Rightarrow> 'a client \<Rightarrow> proof_args_v2 \<Rightarrow> bool result" where
  "verify_transaction_inclusion_v2 env s args =
     pause_guard env ''verify_transaction_inclusion_v2'' []
     (req (length (merkle_proof args) = length (coinbase_merkle_proof args))
        ''Coinbase merkle proof and transaction merkle proof should have the same length''
     (rbind (get_or (Panic ''cannot find requested transaction block'')
        (headers_pool s (tx_block_blockhash args))) (\<lambda>header.
      req (compute_root_from_merkle_proof env (coinbase_tx_id args) (0 :: usize) (coinbase_merkle_proof args) =
             merkle_root (block_header header)) ''Incorrect coinbase merkle proof''
      (verify_transaction_inclusion env s (proof_args_from_v2 args)))))"

section \<open>Migration\<close>

record 'a client_v2 =
  v2_mainchain_height_to_header :: "u64 \<rightharpoonup> h256"
  v2_mainchain_header_to_height :: "h256 \<rightharpoonup> u64"
  v2_mainchain_tip_blockhash :: h256
  v2_mainchain_initial_blockhash :: h256
  v2_headers_pool :: "h256 \<rightharpoonup> 'a ext_header"
  v2_skip_pow_verification :: bool
  v2_gc_threshold :: u64
  v2_used_aux_parent_blocks :: "h256 \<Rightarrow> bool"
  v2_network :: network

text \<open>The two derived Borsh decoders are parameters.\<close>

definition migrate :: "(u8 list \<Rightarrow> 'a client option) \<Rightarrow> (u8 list \<Rightarrow> 'a client_v2 option) \<Rightarrow> host \<Rightarrow>
    u8 list option \<Rightarrow> 'a client result" where
  "migrate try_current try_v2 env raw =
     req (is_self_call env) ''Method migrate is private''
     (rbind (get_or (Panic ''contract state not found'') raw) (\<lambda>raw_state.
      case try_current raw_state of Some state \<Rightarrow> Inr state
      | None \<Rightarrow> (case try_v2 raw_state of Some old_state \<Rightarrow>
          Inr \<lparr>mainchain_height_to_header = v2_mainchain_height_to_header old_state,
               mainchain_header_to_height = v2_mainchain_header_to_height old_state,
               mainchain_tip_blockhash = v2_mainchain_tip_blockhash old_state,
               mainchain_initial_blockhash = v2_mainchain_initial_blockhash old_state,
               headers_pool = v2_headers_pool old_state,
               skip_pow_verification = v2_skip_pow_verification old_state,
               gc_threshold = v2_gc_threshold old_state,
               network = v2_network old_state\<rparr>
        | None \<Rightarrow> Inl (Panic ''contract state matches no known layout''))))"

section \<open>Calls from outside\<close>

text \<open>
  The entry points that the macros of near-sdk export. A method that is neither a view nor \<open>#[payable]\<close>
  refuses a deposit before it does anything else; \<open>submit_blocks\<close> is payable, and calls
  \<open>run_mainchain_gc\<close> inside the contract, without this check.
\<close>

definition no_deposit :: "host \<Rightarrow> string \<Rightarrow> 'b result \<Rightarrow> 'b result" where
  "no_deposit env method k = req (attached_deposit env = 0) (''Method '' @ method @ '' doesn't accept deposit'') k"

definition init_call :: "('h, 'a, 'b) chain \<Rightarrow> host \<Rightarrow> 'h header_base_scheme init_args \<Rightarrow> 'a client result" where
  "init_call C env args = no_deposit env ''init'' (init C env args)"

definition run_mainchain_gc_call :: "host \<Rightarrow> u64 \<Rightarrow> 'a client \<Rightarrow> 'a client result" where
  "run_mainchain_gc_call env batch_size s = no_deposit env ''run_mainchain_gc'' (run_mainchain_gc env batch_size s)"

definition migrate_call :: "(u8 list \<Rightarrow> 'a client option) \<Rightarrow> (u8 list \<Rightarrow> 'a client_v2 option) \<Rightarrow> host \<Rightarrow>
    u8 list option \<Rightarrow> 'a client result" where
  "migrate_call try_current try_v2 env raw = no_deposit env ''migrate'' (migrate try_current try_v2 env raw)"

lemma calls_Inr:
  "init_call C env args = Inr s \<longleftrightarrow> attached_deposit env = 0 \<and> init C env args = Inr s"
  "run_mainchain_gc_call env n s = Inr s' \<longleftrightarrow> attached_deposit env = 0 \<and> run_mainchain_gc env n s = Inr s'"
  "migrate_call try_current try_v2 env raw = Inr s \<longleftrightarrow> attached_deposit env = 0 \<and> migrate try_current try_v2 env raw = Inr s"
  by (simp_all add: init_call_def run_mainchain_gc_call_def migrate_call_def no_deposit_def req_Inr)

end
