(* ===== verification/Chain_Invariant.thy ===== *)
theory Chain_Invariant
  imports Light_Client
begin

text \<open>
  The contract's invariant: its maps describe one chain of linked blocks, whose tip has at least the
  work of every stored block. Stored blocks descend from the genesis block and are identified by
  their hash; that rests on the block hash having no collision among the headers that were submitted
  (\<open>collision_free\<close>), which is stated of that set of headers only.
\<close>

section \<open>Blocks that descend from the genesis block\<close>

inductive accepted :: "(h256 \<times> 'a header_base_scheme) set \<Rightarrow> 'a ext_header \<Rightarrow> 'a ext_header \<Rightarrow> bool"
  for S g where
  genesis: "accepted S g g"
| child: "accepted S g p \<Longrightarrow> (block_hash e, block_header e) \<in> S \<Longrightarrow>
    prev_block_hash (block_header e) = block_hash p \<Longrightarrow>
    val (chain_work e) = val (chain_work p) + block_work (bits (block_header e)) \<Longrightarrow>
    unat (block_height e) = Suc (unat (block_height p)) \<Longrightarrow> accepted S g e"

inductive_cases acceptedE: "accepted S g e"

text \<open>
  \<open>S\<close> is the set of headers ever submitted, each with its hash: a hash stands for one light header, and
  no submitted header is the parent of the genesis block.
\<close>

definition collision_free :: "(h256 \<times> 'a header_base_scheme) set \<Rightarrow> 'a ext_header \<Rightarrow> bool" where
  "collision_free S g \<longleftrightarrow> (block_hash g, block_header g) \<in> S \<and> single_valued S \<and>
     (\<forall>(h, x) \<in> S. h \<noteq> prev_block_hash (block_header g))"

lemma accepted_in:
  "collision_free S g \<Longrightarrow> accepted S g e \<Longrightarrow> (block_hash e, block_header e) \<in> S"
  by (erule accepted.cases) (auto simp: collision_free_def)

lemma accepted_not_parent:
  "collision_free S g \<Longrightarrow> accepted S g p \<Longrightarrow> block_hash p \<noteq> prev_block_hash (block_header g)"
  using accepted_in [of S g p] by (auto simp: collision_free_def)

lemma same_header:
  "collision_free S g \<Longrightarrow> (h, x) \<in> S \<Longrightarrow> (h, y) \<in> S \<Longrightarrow> x = y"
  by (auto simp: collision_free_def single_valued_def)

lemma ext_header_eqI:
  fixes x y :: "'a ext_header"
  assumes "block_header x = block_header y" "block_hash x = block_hash y"
    "val (chain_work x) = val (chain_work y)" "unat (block_height x) = unat (block_height y)"
  shows "x = y"
  using assms by (intro ext_header.equality) (auto simp: val_inject word_unat_eq_iff)

text \<open>A hash identifies an accepted block, with its height and its accumulated work.\<close>

lemma accepted_unique:
  assumes cf: "collision_free S g" and "accepted S g x" "accepted S g y" "block_hash x = block_hash y"
  shows "x = y"
  using assms(2-4)
proof (induction arbitrary: y)
  case genesis
  have "block_header y = block_header g"
    using same_header [OF cf] accepted_in [OF cf genesis(1)] accepted_in [OF cf accepted.genesis] genesis(2) by metis
  with genesis(1) show ?case
    by (cases rule: accepted.cases) (use accepted_not_parent [OF cf] in auto)
next
  case (child p x)
  have hd: "block_header y = block_header x"
    using same_header [OF cf child.hyps(2)] accepted_in [OF cf child.prems(1)] child.prems(2) by metis
  from child.prems(1) show ?case
  proof (cases rule: accepted.cases)
    case genesis
    then show ?thesis using hd child.hyps accepted_not_parent [OF cf child.hyps(1)] by simp
  next
    case (child q)
    then have "p = q" using child.IH hd \<open>prev_block_hash (block_header x) = block_hash p\<close> by metis
    then show ?thesis using child(4,5) hd \<open>val (chain_work x) = _\<close> \<open>unat (block_height x) = _\<close>
        \<open>block_hash x = block_hash y\<close> by (intro ext_header_eqI) auto
  qed
qed

lemma accepted_parent:
  assumes cf: "collision_free S g" and "accepted S g e" "accepted S g p"
    and "prev_block_hash (block_header e) = block_hash p"
  shows "unat (block_height e) = Suc (unat (block_height p))"
    and "val (chain_work e) = val (chain_work p) + block_work (bits (block_header e))"
proof -
  have "\<exists>q. accepted S g q \<and> block_hash q = block_hash p \<and> unat (block_height e) = Suc (unat (block_height q)) \<and>
      val (chain_work e) = val (chain_work q) + block_work (bits (block_header e))"
    using assms(2)
  proof (cases rule: accepted.cases)
    case genesis
    with accepted_not_parent [OF cf assms(3)] assms(4) show ?thesis by simp
  next
    case (child q)
    with assms(4) show ?thesis by (intro exI [of _ q] conjI) simp_all
  qed
  then obtain q where q: "accepted S g q" "block_hash q = block_hash p"
    "unat (block_height e) = Suc (unat (block_height q))"
    "val (chain_work e) = val (chain_work q) + block_work (bits (block_header e))" by blast
  from q(1) assms(3) q(2) have "q = p" by (rule accepted_unique [OF cf])
  with q(3,4) show "unat (block_height e) = Suc (unat (block_height p))"
    "val (chain_work e) = val (chain_work p) + block_work (bits (block_header e))" by simp_all
qed

section \<open>Linked blocks and the tables that describe them\<close>

abbreviation (input) parent_of :: "'a ext_header \<Rightarrow> 'a ext_header \<Rightarrow> bool" where
  "parent_of p e \<equiv> prev_block_hash (block_header e) = block_hash p"

fun linked :: "'a ext_header list \<Rightarrow> bool" where
  "linked (p # e # c) \<longleftrightarrow> parent_of p e \<and> linked (e # c)"
| "linked c \<longleftrightarrow> True"

definition indexed :: "'a ext_header set \<Rightarrow> 'a client \<Rightarrow> bool" where
  "indexed X s \<longleftrightarrow>
     (\<forall>n h. mainchain_height_to_header s n = Some h \<longleftrightarrow> (\<exists>e \<in> X. block_height e = n \<and> block_hash e = h)) \<and>
     (\<forall>h n. mainchain_header_to_height s h = Some n \<longleftrightarrow> (\<exists>e \<in> X. block_hash e = h \<and> block_height e = n))"

definition pool_ok :: "(h256 \<times> 'a header_base_scheme) set \<Rightarrow> 'a ext_header \<Rightarrow> 'a client \<Rightarrow> bool" where
  "pool_ok S g s \<longleftrightarrow> (\<forall>h e. headers_pool s h = Some e \<longrightarrow> block_hash e = h \<and> accepted S g e)"

definition chain_inv :: "(h256 \<times> 'a header_base_scheme) set \<Rightarrow> 'a ext_header \<Rightarrow> 'a ext_header list \<Rightarrow>
    'a client \<Rightarrow> bool" where
  "chain_inv S g c s \<longleftrightarrow> c \<noteq> [] \<and> linked c \<and> (\<forall>e \<in> set c. headers_pool s (block_hash e) = Some e) \<and>
     pool_ok S g s \<and> indexed (set c) s \<and>
     mainchain_tip_blockhash s = block_hash (last c) \<and>
     mainchain_initial_blockhash s = block_hash (hd c) \<and>
     (\<forall>h e. headers_pool s h = Some e \<longrightarrow> chain_work e \<le> chain_work (last c))"

lemma linked_Cons: "linked (p # c) \<longleftrightarrow> (c = [] \<or> parent_of p (hd c) \<and> linked c)"
  by (cases c) auto

lemma linked_append:
  "linked (xs @ ys) \<longleftrightarrow> linked xs \<and> linked ys \<and> (xs \<noteq> [] \<longrightarrow> ys \<noteq> [] \<longrightarrow> parent_of (last xs) (hd ys))"
  by (induction xs rule: linked.induct) (auto simp: linked_Cons)

lemma linked_take_drop: "linked c \<Longrightarrow> linked (take n c) \<and> linked (drop n c)"
  using linked_append [of "take n c" "drop n c"] by simp

text \<open>The blocks of a linked list of accepted blocks have consecutive heights.\<close>

lemma linked_heights:
  assumes cf: "collision_free S g" and "linked (e # c)" "\<forall>x \<in> set (e # c). accepted S g x" "i \<le> length c"
  shows "unat (block_height ((e # c) ! i)) = unat (block_height e) + i"
  using assms(2-4)
proof (induction c arbitrary: e i)
  case (Cons x c)
  have "unat (block_height x) = Suc (unat (block_height e))"
    using accepted_parent(1) [OF cf, of x e] Cons.prems by simp
  then show ?case using Cons.IH [of x "i - 1"] Cons.prems by (cases i) auto
qed simp

lemma linked_height_nth:
  assumes "collision_free S g" "linked c" "\<forall>x \<in> set c. accepted S g x" "i < length c"
  shows "unat (block_height (c ! i)) = unat (block_height (hd c)) + i"
proof (cases c)
  case (Cons e c')
  then have "i \<le> length c'" using assms(4) by simp
  from linked_heights [OF assms(1) assms(2,3) [unfolded Cons] this] show ?thesis by (simp add: Cons)
qed (use assms(4) in simp)

lemma linked_heights_inj:
  assumes "collision_free S g" "linked c" "\<forall>x \<in> set c. accepted S g x"
  shows "inj_on block_height (set c)"
proof (rule inj_onI)
  fix x y assume "x \<in> set c" "y \<in> set c" and eq: "block_height x = block_height y"
  then obtain i j where i: "i < length c" "x = c ! i" and j: "j < length c" "y = c ! j"
    by (auto simp: in_set_conv_nth)
  have "i = j" using linked_height_nth [OF assms i(1)] linked_height_nth [OF assms j(1)]
      arg_cong [OF eq, of unat] unfolding i(2) j(2) by linarith
  then show "x = y" using i(2) j(2) by simp
qed

lemma linked_last_height:
  assumes "collision_free S g" "linked c" "\<forall>x \<in> set c. accepted S g x" "c \<noteq> []"
  shows "unat (block_height (last c)) + 1 = unat (block_height (hd c)) + length c"
proof -
  have "length c - 1 < length c" using assms(4) by (cases c) auto
  then show ?thesis using linked_height_nth [OF assms(1-3), of "length c - 1"] assms(4)
    by (simp add: last_conv_nth)
qed

lemma indexed_height: "indexed X s \<Longrightarrow> mainchain_height_to_header s n = Some h \<longleftrightarrow> (\<exists>e \<in> X. block_height e = n \<and> block_hash e = h)"
  by (simp add: indexed_def)

lemma indexed_hash: "indexed X s \<Longrightarrow> mainchain_header_to_height s h = Some n \<longleftrightarrow> (\<exists>e \<in> X. block_hash e = h \<and> block_height e = n)"
  by (simp add: indexed_def)

lemma indexed_hash_None: "indexed X s \<Longrightarrow> mainchain_header_to_height s h = None \<longleftrightarrow> (\<forall>e \<in> X. block_hash e \<noteq> h)"
  using indexed_hash [of X s h] by (cases "mainchain_header_to_height s h") force+

lemma indexed_height_None: "indexed X s \<Longrightarrow> mainchain_height_to_header s n = None \<longleftrightarrow> (\<forall>e \<in> X. block_height e \<noteq> n)"
  using indexed_height [of X s n] by (cases "mainchain_height_to_header s n") force+

lemma pool_okD: "pool_ok S g s \<Longrightarrow> headers_pool s h = Some e \<Longrightarrow> block_hash e = h \<and> accepted S g e"
  by (simp add: pool_ok_def)

lemma chain_invD:
  assumes "chain_inv S g c s"
  shows "c \<noteq> []" "linked c" "pool_ok S g s" "indexed (set c) s"
    "\<And>e. e \<in> set c \<Longrightarrow> headers_pool s (block_hash e) = Some e"
    "\<And>e. e \<in> set c \<Longrightarrow> accepted S g e"
    "mainchain_tip_blockhash s = block_hash (last c)" "mainchain_initial_blockhash s = block_hash (hd c)"
    "headers_pool s (mainchain_tip_blockhash s) = Some (last c)"
    "headers_pool s (mainchain_initial_blockhash s) = Some (hd c)"
    "\<And>h e. headers_pool s h = Some e \<Longrightarrow> chain_work e \<le> chain_work (last c)"
  using assms by (auto simp: chain_inv_def dest: pool_okD)

section \<open>Removing main chain blocks by height\<close>

definition drop_block :: "u64 \<Rightarrow> h256 \<Rightarrow> 'a client \<Rightarrow> 'a client" where
  "drop_block n h s = (remove_block_header h s)\<lparr>mainchain_height_to_header := (mainchain_height_to_header s)(n := None)\<rparr>"

definition same_settings :: "'a client \<Rightarrow> 'a client \<Rightarrow> bool" where
  "same_settings s s' \<longleftrightarrow> mainchain_tip_blockhash s' = mainchain_tip_blockhash s \<and>
     mainchain_initial_blockhash s' = mainchain_initial_blockhash s \<and>
     skip_pow_verification s' = skip_pow_verification s \<and> gc_threshold s' = gc_threshold s \<and> network s' = network s"

lemma same_settings_trans: "same_settings s s' \<Longrightarrow> same_settings s' s'' \<Longrightarrow> same_settings s s''"
  by (simp add: same_settings_def)

lemma same_settings_refl [simp]: "same_settings s s"
  by (simp add: same_settings_def)

lemma remove_loops:
  "remove_above n s = rbind (get_or (Panic ''cannot get a block'') (mainchain_height_to_header s n)) (\<lambda>h. Inr (drop_block n h s))"
  "gc_remove n s = rbind (get_or ERR_KEY_NOT_EXIST (mainchain_height_to_header s n)) (\<lambda>h. Inr (drop_block n h s))"
  by (simp_all add: remove_above_def gc_remove_def drop_block_def)

lemma drop_block_fields:
  "mainchain_height_to_header (drop_block n h s) = (mainchain_height_to_header s)(n := None)"
  "mainchain_header_to_height (drop_block n h s) = (mainchain_header_to_height s)(h := None)"
  "headers_pool (drop_block n h s) = (headers_pool s)(h := None)"
  "same_settings s (drop_block n h s)"
  by (simp_all add: drop_block_def remove_block_header_def same_settings_def)

lemma indexed_drop:
  assumes "indexed X s" "mainchain_height_to_header s n = Some h" "inj_on block_height X" "inj_on block_hash X"
  shows "indexed {e \<in> X. block_height e \<noteq> n} (drop_block n h s)"
proof -
  from assms(1,2) obtain x where x: "x \<in> X" "block_height x = n" "block_hash x = h"
    by (auto simp: indexed_height)
  have same: "block_hash e = h \<longleftrightarrow> block_height e = n" if "e \<in> X" for e
    using that x assms(3,4) by (metis inj_onD)
  show ?thesis unfolding indexed_def drop_block_fields
  proof (intro conjI allI)
    fix m k
    show "((mainchain_height_to_header s)(n := None)) m = Some k \<longleftrightarrow>
        (\<exists>e \<in> {e \<in> X. block_height e \<noteq> n}. block_height e = m \<and> block_hash e = k)"
      using assms(1) by (auto simp: indexed_def)
  next
    fix k m
    show "((mainchain_header_to_height s)(h := None)) k = Some m \<longleftrightarrow>
        (\<exists>e \<in> {e \<in> X. block_height e \<noteq> n}. block_hash e = k \<and> block_height e = m)"
      using assms(1) same by (auto simp: indexed_def)
  qed
qed

text \<open>Both loops that remove blocks: what is left afterwards, and when they get to their end.\<close>

lemma for_each_drop:
  assumes f: "\<And>n s. f n s = rbind (get_or err (mainchain_height_to_header s n)) (\<lambda>h. Inr (drop_block n h s))"
    and "for_each f ns s = Inr s'" "indexed X s" "inj_on block_height X" "inj_on block_hash X"
  shows "indexed {e \<in> X. block_height e \<notin> set ns} s' \<and> same_settings s s' \<and>
    (\<forall>k. headers_pool s' k = (if \<exists>e \<in> X. block_hash e = k \<and> block_height e \<in> set ns then None else headers_pool s k))"
  using assms(2-5)
proof (induction ns arbitrary: s X)
  case (Cons n ns)
  from Cons.prems(1) obtain h where h: "mainchain_height_to_header s n = Some h"
    and rest: "for_each f ns (drop_block n h s) = Inr s'" by (auto simp: f [of n s] result_simps)
  let ?Y = "{e \<in> X. block_height e \<noteq> n}"
  have Y: "indexed ?Y (drop_block n h s)" using indexed_drop [OF Cons.prems(2) h Cons.prems(3,4)] .
  have inj: "inj_on block_height ?Y" "inj_on block_hash ?Y"
    using Cons.prems(3,4) by (auto intro: inj_on_subset)
  note IH = Cons.IH [OF rest Y inj]
  have "{e \<in> ?Y. block_height e \<notin> set ns} = {e \<in> X. block_height e \<notin> set (n # ns)}" by auto
  moreover have "headers_pool s' k = (if \<exists>e \<in> X. block_hash e = k \<and> block_height e \<in> set (n # ns) then None
      else headers_pool s k)" for k
  proof -
    from h Cons.prems(2) obtain x where "x \<in> X" "block_height x = n" "block_hash x = h"
      by (auto simp: indexed_height)
    then have "(\<exists>e \<in> X. block_hash e = k \<and> block_height e = n) \<longleftrightarrow> k = h"
      using inj_onD [OF Cons.prems(3)] by metis
    moreover have "headers_pool s' k = (if \<exists>e \<in> ?Y. block_hash e = k \<and> block_height e \<in> set ns then None
        else headers_pool (drop_block n h s) k)"
      using IH by blast
    moreover have "headers_pool (drop_block n h s) k = (if k = h then None else headers_pool s k)"
      by (simp add: drop_block_fields)
    ultimately show ?thesis by auto
  qed
  ultimately show ?case
    using IH same_settings_trans [OF drop_block_fields(4)] by (metis (no_types, lifting))
qed simp

lemma for_each_drop_total:
  assumes f: "\<And>n s. f n s = rbind (get_or err (mainchain_height_to_header s n)) (\<lambda>h. Inr (drop_block n h s))"
    and "indexed X s" "inj_on block_height X" "inj_on block_hash X" "distinct ns" "set ns \<subseteq> block_height ` X"
  shows "\<exists>s'. for_each f ns s = Inr s'"
  using assms(2-6)
proof (induction ns arbitrary: s X)
  case (Cons n ns)
  then obtain h where h: "mainchain_height_to_header s n = Some h"
    by (metis indexed_height_None image_iff list.set_intros(1) not_None_eq subset_iff)
  let ?Y = "{e \<in> X. block_height e \<noteq> n}"
  have "\<exists>s'. for_each f ns (drop_block n h s) = Inr s'"
  proof (rule Cons.IH)
    show "indexed ?Y (drop_block n h s)" by (rule indexed_drop [OF Cons.prems(1) h Cons.prems(2,3)])
    show "set ns \<subseteq> block_height ` ?Y" using Cons.prems(4,5) by fastforce
  qed (use Cons.prems in \<open>auto intro: inj_on_subset\<close>)
  then show ?case by (simp add: f [of n s] h)
qed simp

section \<open>Promoting a fork\<close>

text \<open>One iteration of the second loop of \<open>reorg_chain\<close>, without the step to the previous block.\<close>

definition promote_block :: "'a ext_header \<Rightarrow> 'a client \<Rightarrow> 'a client" where
  "promote_block cur s =
     (let s1 = s\<lparr>mainchain_height_to_header := (mainchain_height_to_header s)(block_height cur \<mapsto> block_hash cur),
                 mainchain_header_to_height := (mainchain_header_to_height s)(block_hash cur \<mapsto> block_height cur)\<rparr>
      in case mainchain_height_to_header s (block_height cur) of None \<Rightarrow> s1 | Some h \<Rightarrow> remove_block_header h s1)"

lemma promote_fork_unfold:
  "promote_fork gas cur s =
     (if mainchain_header_to_height s (block_hash cur) \<noteq> None then Inr s
      else case gas of 0 \<Rightarrow> Inl GasExceeded
      | Suc gas' \<Rightarrow> rbind (get_or (Panic ''previous fork block should be there'')
            (headers_pool (promote_block cur s) (prev_block_hash (block_header cur))))
          (\<lambda>p. promote_fork gas' p (promote_block cur s)))"
  by (subst promote_fork.simps) (cases gas; simp add: promote_block_def Let_def)

lemma promote_block_fields:
  "mainchain_height_to_header (promote_block cur s) = (mainchain_height_to_header s)(block_height cur \<mapsto> block_hash cur)"
  "mainchain_header_to_height (promote_block cur s) =
     (\<lambda>k. if mainchain_height_to_header s (block_height cur) = Some k then None
          else if k = block_hash cur then Some (block_height cur) else mainchain_header_to_height s k)"
  "headers_pool (promote_block cur s) =
     (\<lambda>k. if mainchain_height_to_header s (block_height cur) = Some k then None else headers_pool s k)"
  "same_settings s (promote_block cur s)"
  by (auto simp: promote_block_def remove_block_header_def same_settings_def Let_def fun_eq_iff split: option.split)

text \<open>
  In the middle of the loop the tables hold the old chain \<open>X\<close> up to the cursor's height, and the part
  of the fork above the cursor.
\<close>

definition up_to :: "'a ext_header set \<Rightarrow> u64 \<Rightarrow> 'a ext_header set" where
  "up_to X n = {e \<in> X. block_height e \<le> n}"

definition promoting :: "(h256 \<times> 'a header_base_scheme) set \<Rightarrow> 'a ext_header \<Rightarrow> 'a ext_header set \<Rightarrow>
    'a ext_header \<Rightarrow> 'a ext_header list \<Rightarrow> 'a client \<Rightarrow> bool" where
  "promoting S g X cur path s \<longleftrightarrow> pool_ok S g s \<and> indexed (up_to X (block_height cur) \<union> set path) s \<and>
     (\<forall>e \<in> insert cur (up_to X (block_height cur) \<union> set path). headers_pool s (block_hash e) = Some e) \<and>
     (\<forall>e \<in> set path. block_height cur < block_height e) \<and> inj_on block_height X"

lemma promotingD:
  assumes "promoting S g X cur path s"
  shows "pool_ok S g s" "indexed (up_to X (block_height cur) \<union> set path) s"
    "\<And>e. e \<in> insert cur (up_to X (block_height cur) \<union> set path) \<Longrightarrow> headers_pool s (block_hash e) = Some e"
    "\<And>e. e \<in> set path \<Longrightarrow> block_height cur < block_height e" "inj_on block_height X"
    "accepted S g cur"
  using assms by (auto simp: promoting_def dest: pool_okD)

text \<open>The main chain block at the cursor's height, if there is one, is what an iteration removes.\<close>

lemma promoting_occupied:
  assumes "promoting S g X cur path s"
  shows "mainchain_height_to_header s (block_height cur) = Some h \<longleftrightarrow>
    (\<exists>x \<in> X. block_height x = block_height cur \<and> block_hash x = h)"
  unfolding indexed_height [OF promotingD(2) [OF assms]]
  by (auto simp: up_to_def dest: promotingD(4) [OF assms])

lemma promoting_removed_not:
  assumes pr: "promoting S g X cur path s" and fresh: "mainchain_header_to_height s (block_hash cur) = None"
    and e: "e \<in> insert cur ({e \<in> X. block_height e < block_height cur} \<union> set path)"
  shows "mainchain_height_to_header s (block_height cur) \<noteq> Some (block_hash e)"
proof
  assume "mainchain_height_to_header s (block_height cur) = Some (block_hash e)"
  then obtain x where x: "x \<in> X" "block_height x = block_height cur" "block_hash x = block_hash e"
    using promoting_occupied [OF pr] by auto
  then have up: "x \<in> up_to X (block_height cur)" by (simp add: up_to_def)
  have "e \<in> insert cur (up_to X (block_height cur) \<union> set path)" using e by (auto simp: up_to_def)
  then have "headers_pool s (block_hash e) = Some e" "headers_pool s (block_hash x) = Some x"
    using promotingD(3) [OF pr] up by auto
  then have "x = e" using x(3) by simp
  moreover have "block_hash x \<noteq> block_hash cur"
    using indexed_hash_None [OF promotingD(2) [OF pr]] fresh up by auto
  ultimately show False using e x(2) by (auto dest: promotingD(4) [OF pr])
qed

lemma promoting_step_indexed:
  assumes pr: "promoting S g X cur path s" and fresh: "mainchain_header_to_height s (block_hash cur) = None"
  shows "indexed ({e \<in> X. block_height e < block_height cur} \<union> set (cur # path)) (promote_block cur s)"
    (is "indexed (?L \<union> _) _")
proof -
  let ?m = "block_height cur"
  note ix = promotingD(2) [OF pr] and above = promotingD(4) [OF pr]
  have split: "e \<in> up_to X ?m \<union> set path \<longleftrightarrow> e \<in> ?L \<union> set path \<or> e \<in> X \<and> block_height e = ?m" for e
    by (auto simp: up_to_def)
  show ?thesis unfolding indexed_def promote_block_fields
  proof (intro conjI allI)
    fix n h
    show "((mainchain_height_to_header s)(?m \<mapsto> block_hash cur)) n = Some h \<longleftrightarrow>
        (\<exists>e \<in> ?L \<union> set (cur # path). block_height e = n \<and> block_hash e = h)"
    proof (cases "n = ?m")
      case True
      then show ?thesis by (auto dest: above)
    next
      case False
      then show ?thesis unfolding fun_upd_other [OF False] indexed_height [OF ix] using split by auto
    qed
  next
    fix k n
    show "(if mainchain_height_to_header s ?m = Some k then None else if k = block_hash cur then Some ?m
           else mainchain_header_to_height s k) = Some n \<longleftrightarrow>
        (\<exists>e \<in> ?L \<union> set (cur # path). block_hash e = k \<and> block_height e = n)"
    proof (cases "mainchain_height_to_header s ?m = Some k")
      case True
      then show ?thesis using promoting_removed_not [OF pr fresh] by auto
    next
      case removed: False
      show ?thesis
      proof (cases "k = block_hash cur")
        case True
        have "block_hash e \<noteq> k" if "e \<in> ?L \<union> set path" for e
          using that fresh split unfolding True indexed_hash_None [OF ix] by blast
        then show ?thesis using removed True by auto
      next
        case False
        have "\<not> (e \<in> X \<and> block_height e = ?m \<and> block_hash e = k)" for e
          using removed promoting_occupied [OF pr] by blast
        then show ?thesis using removed False indexed_hash [OF ix, of k n] split by auto
      qed
    qed
  qed
qed

lemma promoting_step:
  assumes cf: "collision_free S g" and pr: "promoting S g X cur path s"
    and fresh: "mainchain_header_to_height s (block_hash cur) = None"
    and p: "headers_pool (promote_block cur s) (prev_block_hash (block_header cur)) = Some p"
  shows "promoting S g X p (cur # path) (promote_block cur s)" and "parent_of p cur"
    and "unat (block_height cur) = Suc (unat (block_height p))"
proof -
  let ?s = "promote_block cur s"
  note pool = promoting_removed_not [OF pr fresh]
  have ok: "pool_ok S g ?s"
    using promotingD(1) [OF pr] by (auto simp: pool_ok_def promote_block_fields split: if_splits)
  show par: "parent_of p cur" using pool_okD [OF ok p] by simp
  show h: "unat (block_height cur) = Suc (unat (block_height p))"
    using accepted_parent(1) [OF cf promotingD(6) [OF pr] _ par] pool_okD [OF ok p] by simp
  have low: "up_to X (block_height p) = {e \<in> X. block_height e < block_height cur}"
    using h by (auto simp: up_to_def word_le_nat_alt word_less_nat_alt)
  have "headers_pool ?s (block_hash e) = Some e"
    if "e \<in> insert cur ({e \<in> X. block_height e < block_height cur} \<union> set path)" for e
  proof -
    have "e \<in> insert cur (up_to X (block_height cur) \<union> set path)" using that by (auto simp: up_to_def)
    with pool [OF that] promotingD(3) [OF pr] show ?thesis by (simp add: promote_block_fields)
  qed
  moreover have "headers_pool ?s (block_hash p) = Some p" using p par by simp
  moreover have "block_height p < block_height e" if "e \<in> set (cur # path)" for e
    using that h promotingD(4) [OF pr, of e] by (auto simp: word_less_nat_alt)
  ultimately show "promoting S g X p (cur # path) ?s"
    unfolding promoting_def low using ok promoting_step_indexed [OF pr fresh] promotingD(5) [OF pr] by auto
qed

text \<open>
  When the loop ends it has found a block \<open>j\<close> of the old chain below the fork: the tables hold the old
  chain up to \<open>j\<close> and the fork above it, and only old blocks above \<open>j\<close> have left the pool.
\<close>

definition promoted :: "(h256 \<times> 'a header_base_scheme) set \<Rightarrow> 'a ext_header \<Rightarrow> 'a ext_header set \<Rightarrow>
    'a ext_header \<Rightarrow> 'a ext_header list \<Rightarrow> 'a client \<Rightarrow> 'a client \<Rightarrow> bool" where
  "promoted S g X j path s s' \<longleftrightarrow> promoting S g X j path s' \<and> j \<in> X \<and> linked (j # path) \<and> same_settings s s' \<and>
     (\<forall>k. headers_pool s' k = headers_pool s k \<or>
       headers_pool s' k = None \<and> (\<exists>e \<in> X. block_hash e = k \<and> block_height j < block_height e))"

lemma stop_in_chain:
  assumes pr: "promoting S g X cur path s" and "mainchain_header_to_height s (block_hash cur) \<noteq> None"
  shows "cur \<in> X"
proof -
  from assms(2) obtain e where e: "e \<in> up_to X (block_height cur) \<union> set path" "block_hash e = block_hash cur"
    unfolding indexed_hash_None [OF promotingD(2) [OF pr]] by blast
  have "headers_pool s (block_hash e) = Some e" by (rule promotingD(3) [OF pr]) (use e(1) in auto)
  moreover have "headers_pool s (block_hash cur) = Some cur" by (rule promotingD(3) [OF pr]) auto
  ultimately have "e = cur" using e(2) by (metis option.inject)
  then show ?thesis using e(1) by (auto simp: up_to_def dest: promotingD(4) [OF pr])
qed

lemma promote_fork_sound:
  assumes cf: "collision_free S g"
    and "promoting S g X cur path s" "linked (cur # path)" "promote_fork gas cur s = Inr s'"
  shows "\<exists>j ws. promoted S g X j (ws @ path) s s' \<and> last (j # ws) = cur \<and> length ws \<le> gas"
  using assms(2-4)
proof (induction gas arbitrary: cur path s)
  case 0
  then have "mainchain_header_to_height s (block_hash cur) \<noteq> None" and s': "s' = s"
    by (simp_all add: promote_fork_unfold [of 0] split: if_splits)
  then have "cur \<in> X" using stop_in_chain [OF 0(1)] by simp
  then show ?case using 0 s' by (intro exI [of _ cur] exI [of _ "[]"]) (simp add: promoted_def)
next
  case (Suc gas)
  show ?case
  proof (cases "mainchain_header_to_height s (block_hash cur) = None")
    case False
    then have "cur \<in> X" "s' = s"
      using stop_in_chain [OF Suc.prems(1)] Suc.prems(3) by (simp_all add: promote_fork_unfold [of "Suc gas"])
    then show ?thesis using Suc.prems by (intro exI [of _ cur] exI [of _ "[]"]) (simp add: promoted_def)
  next
    case fresh: True
    then obtain p where p: "headers_pool (promote_block cur s) (prev_block_hash (block_header cur)) = Some p"
      and run: "promote_fork gas p (promote_block cur s) = Inr s'"
      using Suc.prems(3) by (auto simp: promote_fork_unfold [of "Suc gas"] result_simps)
    note step = promoting_step [OF cf Suc.prems(1) fresh p]
    have "linked (p # cur # path)" using step(2) Suc.prems(2) by simp
    from Suc.IH [OF step(1) this run] obtain j ws where
      j: "promoted S g X j (ws @ cur # path) (promote_block cur s) s'" "last (j # ws) = p" "length ws \<le> gas"
      by blast
    have below: "block_height j < block_height cur"
      using j(1) by (auto simp: promoted_def promoting_def)
    have "headers_pool s' k = headers_pool s k \<or>
        headers_pool s' k = None \<and> (\<exists>e \<in> X. block_hash e = k \<and> block_height j < block_height e)" for k
    proof (cases "mainchain_height_to_header s (block_height cur) = Some k")
      case True
      then have "headers_pool (promote_block cur s) k = None" by (simp add: promote_block_fields)
      then have "headers_pool s' k = None" using j(1) unfolding promoted_def by metis
      moreover from True obtain x where "x \<in> X" "block_height x = block_height cur" "block_hash x = k"
        using promoting_occupied [OF Suc.prems(1), of k] by blast
      ultimately show ?thesis using below by metis
    next
      case False
      then have "headers_pool (promote_block cur s) k = headers_pool s k" by (simp add: promote_block_fields)
      then show ?thesis using j(1) unfolding promoted_def by metis
    qed
    then have "promoted S g X j ((ws @ [cur]) @ path) s s'"
      using j(1) same_settings_trans [OF promote_block_fields(4)] by (auto simp: promoted_def)
    then show ?thesis using j(3) by (intro exI [of _ j] exI [of _ "ws @ [cur]"]) simp
  qed
qed

text \<open>
  The loop ends: a fork whose blocks down to a block of the main chain are all stored is promoted, with
  one unit of gas per block of the fork.
\<close>

lemma linked_below_last:
  assumes cf: "collision_free S g" and "linked (c @ [e])" "\<forall>x \<in> set (c @ [e]). accepted S g x" "w \<in> set c"
  shows "block_height w < block_height e"
proof -
  from assms(4) obtain i where i: "i < length c" "w = c ! i" by (auto simp: in_set_conv_nth)
  then have "w = (c @ [e]) ! i" "e = (c @ [e]) ! length c" by (simp_all add: nth_append)
  then show ?thesis
    using linked_height_nth [OF cf assms(2,3), of i] linked_height_nth [OF cf assms(2,3), of "length c"] i(1)
    by (simp add: word_less_nat_alt)
qed

lemma promoting_keeps_below:
  assumes pr: "promoting S g X cur path s" and "headers_pool s (block_hash w) = Some w"
    and "block_height w < block_height cur"
  shows "headers_pool (promote_block cur s) (block_hash w) = Some w"
proof -
  have "mainchain_height_to_header s (block_height cur) \<noteq> Some (block_hash w)"
  proof
    assume "mainchain_height_to_header s (block_height cur) = Some (block_hash w)"
    then obtain x where x: "x \<in> X" "block_height x = block_height cur" "block_hash x = block_hash w"
      unfolding promoting_occupied [OF pr] by blast
    have "headers_pool s (block_hash x) = Some x"
      by (rule promotingD(3) [OF pr]) (use x(1,2) in \<open>simp add: up_to_def\<close>)
    then have "x = w" using assms(2) x(3) by (metis option.inject)
    then show False using x(2) assms(3) by simp
  qed
  then show ?thesis using assms(2) by (simp add: promote_block_fields)
qed

lemma promote_fork_total:
  assumes cf: "collision_free S g"
    and "promoting S g X (last (j # ws)) path s" "j \<in> X" "linked (j # ws)"
    and "\<forall>w \<in> set (j # ws). headers_pool s (block_hash w) = Some w" "set ws \<inter> X = {}" "length ws \<le> gas"
  shows "\<exists>s'. promote_fork gas (last (j # ws)) s = Inr s'"
  using assms(2-7)
proof (induction ws arbitrary: path s gas rule: rev_induct)
  case Nil
  then have "j \<in> up_to X (block_height j) \<union> set path" by (simp add: up_to_def)
  then have "mainchain_header_to_height s (block_hash j) \<noteq> None"
    using Nil(1) unfolding indexed_hash_None [OF promotingD(2) [OF Nil(1) [simplified]]] by auto
  then show ?case by (simp add: promote_fork_unfold [of gas])
next
  case (snoc cur ws)
  let ?p = "last (j # ws)" and ?s = "promote_block cur s"
  have pr: "promoting S g X cur path s" using snoc.prems(1) by simp
  have lk: "linked ((j # ws) @ [cur])" using snoc.prems(3) by simp
  have "\<forall>w \<in> set ((j # ws) @ [cur]). accepted S g w"
    using snoc.prems(4) pool_okD [OF promotingD(1) [OF pr]] by fastforce
  note below = linked_below_last [OF cf lk this]
  have fresh: "mainchain_header_to_height s (block_hash cur) = None"
    using stop_in_chain [OF pr] snoc.prems(5) by auto
  have kept: "headers_pool ?s (block_hash w) = Some w" if "w \<in> set (j # ws)" for w
    by (rule promoting_keeps_below [OF pr]) (use snoc.prems(4) below that in auto)
  have par: "parent_of ?p cur" using lk by (simp only: linked_append) simp
  have "?p \<in> set (j # ws)" by (rule last_in_set) simp
  from kept [OF this] have p: "headers_pool ?s (prev_block_hash (block_header cur)) = Some ?p" using par by simp
  obtain gas' where gas: "gas = Suc gas'" "length ws \<le> gas'" using snoc.prems(6) by (cases gas) auto
  have "\<exists>s'. promote_fork gas' ?p ?s = Inr s'"
  proof (rule snoc.IH)
    show "promoting S g X ?p (cur # path) ?s" by (rule promoting_step(1) [OF cf pr fresh p])
    show "linked (j # ws)" using lk by (simp only: linked_append)
  qed (use kept snoc.prems(2,5) gas in auto)
  then show ?case using fresh p by (simp add: promote_fork_unfold [of "Suc gas'"] gas(1))
qed

section \<open>Submitting a block, abstractly\<close>

text \<open>
  The specification: what the best chain becomes when a block arrives. It is extended, kept, or replaced
  from some block on by a fork that ends in the new block.
\<close>

inductive best_chain :: "'a ext_header list \<Rightarrow> 'a ext_header \<Rightarrow> 'a ext_header list \<Rightarrow> bool" where
  extend: "parent_of (last c) e \<Longrightarrow> best_chain c e (c @ [e])"
| keep: "\<not> parent_of (last c) e \<Longrightarrow> chain_work e \<le> chain_work (last c) \<Longrightarrow> best_chain c e c"
| switch: "\<not> parent_of (last c) e \<Longrightarrow> chain_work (last c) < chain_work e \<Longrightarrow> i < length c \<Longrightarrow>
    ws \<noteq> [] \<Longrightarrow> last ws = e \<Longrightarrow> linked (c ! i # ws) \<Longrightarrow> best_chain c e (take (Suc i) c @ ws)"

inductive_cases best_chainE: "best_chain c e c'"

definition child_block :: "(h256 \<times> 'a header_base_scheme) set \<Rightarrow> 'a ext_header \<Rightarrow> 'a ext_header \<Rightarrow> bool" where
  "child_block S p e \<longleftrightarrow> (block_hash e, block_header e) \<in> S \<and> parent_of p e \<and>
     val (chain_work e) = val (chain_work p) + block_work (bits (block_header e)) \<and>
     unat (block_height e) = Suc (unat (block_height p))"

lemma child_accepted: "accepted S g p \<Longrightarrow> child_block S p e \<Longrightarrow> accepted S g e"
  unfolding child_block_def by (blast intro: accepted.child)

lemma child_heavier: "child_block S p e \<Longrightarrow> chain_work p < chain_work e"
  using block_work_pos [of "bits (block_header e)"] by (simp add: child_block_def val_lt)

lemma indexed_store:
  assumes "indexed X s" "\<And>x. x \<in> X \<Longrightarrow> block_height x \<noteq> block_height e" "\<And>x. x \<in> X \<Longrightarrow> block_hash x \<noteq> block_hash e"
  shows "indexed (insert e X) (store_block_header e s)"
  unfolding indexed_def
proof (intro conjI allI)
  fix n h
  show "mainchain_height_to_header (store_block_header e s) n = Some h \<longleftrightarrow>
      (\<exists>x \<in> insert e X. block_height x = n \<and> block_hash x = h)"
    using assms(2) indexed_height [OF assms(1), of n h] by (auto simp: store_block_header_def)
  show "mainchain_header_to_height (store_block_header e s) h = Some n \<longleftrightarrow>
      (\<exists>x \<in> insert e X. block_hash x = h \<and> block_height x = n)"
    using assms(3) indexed_hash [OF assms(1), of h n] by (auto simp: store_block_header_def)
qed

lemma chain_heights_le:
  assumes cf: "collision_free S g" and inv: "chain_inv S g c s" and "x \<in> set c"
  shows "block_height (hd c) \<le> block_height x \<and> block_height x \<le> block_height (last c)"
proof -
  note D = chain_invD [OF inv]
  have acc: "\<forall>x \<in> set c. accepted S g x" using D(6) by simp
  from assms(3) obtain i where i: "i < length c" "x = c ! i" by (auto simp: in_set_conv_nth)
  then show ?thesis using linked_height_nth [OF cf D(2) acc i(1)] linked_last_height [OF cf D(2) acc D(1)]
    by (simp add: word_le_nat_alt)
qed

lemma inner_extend:
  assumes cf: "collision_free S g" and inv: "chain_inv S g c s" and ch: "child_block S (last c) e"
  shows "chain_inv S g (c @ [e]) ((store_block_header e s)\<lparr>mainchain_tip_blockhash := block_hash e\<rparr>)"
    (is "chain_inv _ _ _ ?s")
proof -
  note D = chain_invD [OF inv]
  have acc: "accepted S g (last c)" using D(1,6) by simp
  have above: "block_height x < block_height e" if "x \<in> set c" for x
    using chain_heights_le [OF cf inv that] ch by (auto simp: child_block_def word_less_nat_alt word_le_nat_alt)
  have hash: "block_hash x \<noteq> block_hash e" if "x \<in> set c" for x
    using accepted_unique [OF cf D(6) [OF that] child_accepted [OF acc ch]] above [OF that] by auto
  have "indexed (insert e (set c)) (store_block_header e s)"
    by (rule indexed_store [OF D(4)]) (auto dest: above hash)
  then have ix: "indexed (set (c @ [e])) ?s" by (simp add: indexed_def)
  have pool: "headers_pool ?s = (headers_pool s)(block_hash e \<mapsto> e)" by (simp add: store_block_header_def)
  have "pool_ok S g ?s"
    using D(3) child_accepted [OF acc ch] by (auto simp: pool_ok_def pool)
  moreover have "chain_work x \<le> chain_work e" if "headers_pool ?s h = Some x" for h x
    using that D(11) [of h x] child_heavier [OF ch] by (auto simp: pool split: if_splits)
  moreover have "linked (c @ [e])" using D(2) ch by (simp add: linked_append child_block_def)
  moreover have "\<forall>x \<in> set (c @ [e]). headers_pool ?s (block_hash x) = Some x"
    using D(5) hash by (auto simp: pool)
  ultimately show ?thesis
    using ix D(1,8) by (simp add: chain_inv_def store_block_header_def)
qed

lemma store_fork_fields:
  "headers_pool (store_fork_header e s) = (headers_pool s)(block_hash e \<mapsto> e)"
  "mainchain_height_to_header (store_fork_header e s) = mainchain_height_to_header s"
  "mainchain_header_to_height (store_fork_header e s) = mainchain_header_to_height s"
  "same_settings s (store_fork_header e s)"
  by (simp_all add: store_fork_header_def same_settings_def)

lemma store_fork_chain:
  assumes cf: "collision_free S g" and inv: "chain_inv S g c s" and "accepted S g p" "child_block S p e"
  defines "s1 \<equiv> store_fork_header e s"
  shows "pool_ok S g s1" "indexed (set c) s1" "\<And>x. x \<in> set c \<Longrightarrow> headers_pool s1 (block_hash x) = Some x"
    "headers_pool s1 (block_hash e) = Some e"
    "chain_work e \<le> chain_work (last c) \<Longrightarrow> chain_inv S g c s1"
proof -
  note D = chain_invD [OF inv]
  have acc: "accepted S g e" using child_accepted assms(3,4) by blast
  show ok: "pool_ok S g s1" using D(3) acc by (auto simp: s1_def store_fork_fields pool_ok_def)
  show ix: "indexed (set c) s1" using D(4) by (simp add: s1_def indexed_def store_fork_fields)
  show e: "headers_pool s1 (block_hash e) = Some e" by (simp add: s1_def store_fork_fields)
  show c: "headers_pool s1 (block_hash x) = Some x" if "x \<in> set c" for x
  proof (cases "block_hash x = block_hash e")
    case True
    then have "x = e" by (rule accepted_unique [OF cf D(6) [OF that] acc])
    with e show ?thesis by simp
  next
    case False
    with D(5) [OF that] show ?thesis by (simp add: s1_def store_fork_fields)
  qed
  assume le: "chain_work e \<le> chain_work (last c)"
  have "chain_work x \<le> chain_work (last c)" if "headers_pool s1 h = Some x" for h x
    using that le D(11) [of h x] by (auto simp: s1_def store_fork_fields split: if_splits)
  then show "chain_inv S g c s1"
    using ok ix c D(1,2,7,8) store_fork_fields(4) [of s e, folded s1_def] by (simp add: chain_inv_def same_settings_def)
qed

section \<open>Reorganisation\<close>

text \<open>The first loop of \<open>reorg_chain\<close> brings the tables to the start of the second one.\<close>

definition truncate_above :: "u64 \<Rightarrow> u64 \<Rightarrow> 'a client \<Rightarrow> 'a client result" where
  "truncate_above tip_height last_height s =
     (if last_height > tip_height
      then rbind (checked_add tip_height 1) (\<lambda>from. for_each remove_above (word_range_incl from last_height) s)
      else Inr s)"

lemma reorg_chain_split:
  "reorg_chain env e n s = rbind (truncate_above (block_height e) n s) (\<lambda>s1.
     rbind (promote_fork (loop_gas env) e s1) (\<lambda>s2. Inr (s2\<lparr>mainchain_tip_blockhash := block_hash e\<rparr>)))"
  by (simp add: reorg_chain_def truncate_above_def Let_def)

lemma pool_inj: "(\<And>x. x \<in> X \<Longrightarrow> headers_pool s (block_hash x) = Some x) \<Longrightarrow> inj_on block_hash X"
  by (rule inj_onI) (metis option.inject)

lemma chain_heights_inj:
  "collision_free S g \<Longrightarrow> chain_inv S g c s \<Longrightarrow> inj_on block_height (set c)"
  by (rule linked_heights_inj) (auto dest: chain_invD)

lemma from_height: "checked_add n 1 = Inr m \<Longrightarrow> m \<le> x \<longleftrightarrow> n < (x :: u64)"
  by (auto simp: checked_add_Inr word_le_nat_alt word_less_nat_alt)

lemma truncate_above_correct:
  assumes cf: "collision_free S g" and inv: "chain_inv S g c s"
    and s1: "pool_ok S g s1" "indexed (set c) s1" "\<And>x. x \<in> set c \<Longrightarrow> headers_pool s1 (block_hash x) = Some x"
    and e: "e \<notin> set c" "headers_pool s1 (block_hash e) = Some e"
    and run: "truncate_above (block_height e) (block_height (last c)) s1 = Inr s2"
  shows "promoting S g (set c) e [] s2" and "same_settings s1 s2"
    and "\<And>k. headers_pool s2 k = (if \<exists>x \<in> set c. block_hash x = k \<and> block_height e < block_height x then None
      else headers_pool s1 k)"
proof -
  note inj = chain_heights_inj [OF cf inv]
  have le: "block_height x \<le> block_height (last c)" if "x \<in> set c" for x
    using chain_heights_le [OF cf inv that] by simp
  have all: "indexed (up_to (set c) (block_height e)) s2 \<and> same_settings s1 s2 \<and>
    (\<forall>k. headers_pool s2 k = (if \<exists>x \<in> set c. block_hash x = k \<and> block_height e < block_height x then None
      else headers_pool s1 k))"
  proof (cases "block_height (last c) > block_height e")
    case True
    then obtain m where m: "checked_add (block_height e) 1 = Inr m"
      and loop: "for_each remove_above (word_range_incl m (block_height (last c))) s1 = Inr s2"
      using run by (auto simp: truncate_above_def result_simps)
    have mem: "block_height x \<in> set (word_range_incl m (block_height (last c))) \<longleftrightarrow> block_height e < block_height x"
      if "x \<in> set c" for x
      using le [OF that] from_height [OF m] by (simp add: set_word_range_incl)
    have "{x \<in> set c. block_height x \<notin> set (word_range_incl m (block_height (last c)))} = up_to (set c) (block_height e)"
      using mem by (auto simp: up_to_def)
    moreover have "(\<exists>x \<in> set c. block_hash x = k \<and> block_height x \<in> set (word_range_incl m (block_height (last c)))) \<longleftrightarrow>
        (\<exists>x \<in> set c. block_hash x = k \<and> block_height e < block_height x)" for k
      using mem by blast
    ultimately show ?thesis
      using for_each_drop [OF remove_loops(1) loop s1(2) inj pool_inj [OF s1(3)]] by simp
  next
    case False
    then have "up_to (set c) (block_height e) = set c" and none: "\<not> (\<exists>x \<in> set c. block_height e < block_height x)"
      using le by (fastforce simp: up_to_def)+
    then show ?thesis using run s1(2) False by (auto simp: truncate_above_def)
  qed
  then show "same_settings s1 s2" by simp
  show pool: "headers_pool s2 k = (if \<exists>x \<in> set c. block_hash x = k \<and> block_height e < block_height x then None
      else headers_pool s1 k)" for k
    using all by blast
  have kept: "headers_pool s2 (block_hash y) = Some y"
    if "headers_pool s1 (block_hash y) = Some y" "y \<in> set c \<Longrightarrow> block_height y \<le> block_height e" for y
  proof -
    have "x = y" if "x \<in> set c" "block_hash x = block_hash y" for x
      using s1(3) [OF that(1)] \<open>headers_pool s1 (block_hash y) = Some y\<close> that(2) by (metis option.inject)
    then have "\<not> (\<exists>x \<in> set c. block_hash x = block_hash y \<and> block_height e < block_height x)"
      using that(2) by force
    then show ?thesis using pool [of "block_hash y"] that(1) by simp
  qed
  have "pool_ok S g s2" using s1(1) unfolding pool_ok_def pool by auto
  moreover have "headers_pool s2 (block_hash y) = Some y" if "y \<in> insert e (up_to (set c) (block_height e))" for y
    using that by (intro kept) (use e s1(3) in \<open>auto simp: up_to_def\<close>)
  ultimately show "promoting S g (set c) e [] s2" using all inj by (simp add: promoting_def)
qed

lemma take_up_to:
  assumes cf: "collision_free S g" and inv: "chain_inv S g c s" and i: "i < length c"
  shows "set (take (Suc i) c) = up_to (set c) (block_height (c ! i))"
proof -
  note D = chain_invD [OF inv]
  have acc: "\<forall>x \<in> set c. accepted S g x" using D(6) by simp
  note ht = linked_height_nth [OF cf D(2) acc]
  have le: "block_height (c ! k) \<le> block_height (c ! i) \<longleftrightarrow> k < Suc i" if "k < length c" for k
    using ht [OF that] ht [OF i] by (auto simp: word_le_nat_alt)
  have "set (take (Suc i) c) = {c ! k | k. k < length c \<and> k < Suc i}"
    using nth_image [of "Suc i" c] i by force
  also have "\<dots> = up_to (set c) (block_height (c ! i))"
    using le by (auto simp: up_to_def set_conv_nth)
  finally show ?thesis .
qed

lemma promoted_chain:
  assumes cf: "collision_free S g" and inv: "chain_inv S g c s" and i: "i < length c"
    and pr: "promoted S g (set c) (c ! i) ws s2 s3" and ws: "ws \<noteq> []" "last ws = e"
    and init: "mainchain_initial_blockhash s2 = mainchain_initial_blockhash s"
    and heavy: "\<And>k x. headers_pool s2 k = Some x \<Longrightarrow> chain_work x \<le> chain_work e"
  shows "chain_inv S g (take (Suc i) c @ ws) (s3\<lparr>mainchain_tip_blockhash := block_hash e\<rparr>)"
proof -
  note D = chain_invD [OF inv]
  have P: "promoting S g (set c) (c ! i) ws s3" "linked (c ! i # ws)" "same_settings s2 s3"
    and pool: "headers_pool s3 k = headers_pool s2 k \<or> headers_pool s3 k = None" for k
    using pr by (auto simp: promoted_def)
  have set: "set (take (Suc i) c @ ws) = up_to (set c) (block_height (c ! i)) \<union> set ws"
    by (simp only: set_append take_up_to [OF cf inv i])
  have "linked (take (Suc i) c @ ws)"
    using linked_take_drop [OF D(2), of "Suc i"] P(2) i
    by (simp add: linked_append take_Suc_conv_app_nth linked_Cons)
  moreover have "indexed (set (take (Suc i) c @ ws)) s3" using promotingD(2) [OF P(1)] by (simp only: set)
  moreover have "\<forall>x \<in> set (take (Suc i) c @ ws). headers_pool s3 (block_hash x) = Some x"
    using promotingD(3) [OF P(1)] unfolding set by blast
  moreover have "hd (take (Suc i) c @ ws) = hd c" using D(1) i by (cases c) auto
  moreover have "chain_work x \<le> chain_work e" if "headers_pool s3 k = Some x" for k x
    using that pool [of k] heavy by (metis option.distinct(1))
  ultimately show ?thesis
    using promotingD(1) [OF P(1)] P(3) init D(1,8) ws
    by (simp add: chain_inv_def pool_ok_def indexed_def same_settings_def)
qed

definition same_config :: "'a client \<Rightarrow> 'a client \<Rightarrow> bool" where
  "same_config s s' \<longleftrightarrow> skip_pow_verification s' = skip_pow_verification s \<and> gc_threshold s' = gc_threshold s \<and>
     network s' = network s"

lemma same_config_trans: "same_config s s' \<Longrightarrow> same_config s' s'' \<Longrightarrow> same_config s s''"
  by (simp add: same_config_def)

lemma reorg_chain_correct:
  assumes cf: "collision_free S g" and inv: "chain_inv S g c s" and p: "accepted S g p" "child_block S p e"
    and heavy: "chain_work (last c) < chain_work e"
    and run: "reorg_chain env e (block_height (last c)) (store_fork_header e s) = Inr s'"
  shows "\<exists>i ws. i < length c \<and> ws \<noteq> [] \<and> last ws = e \<and> linked (c ! i # ws) \<and>
    chain_inv S g (take (Suc i) c @ ws) s' \<and> same_config s s'"
proof -
  note D = chain_invD [OF inv] and F = store_fork_chain(1-4) [OF cf inv p]
  have e: "e \<notin> set c" using D(5,11) heavy by fastforce
  from run obtain s2 s3 where
    s2: "truncate_above (block_height e) (block_height (last c)) (store_fork_header e s) = Inr s2" and
    s3: "promote_fork (loop_gas env) e s2 = Inr s3" and s': "s' = s3\<lparr>mainchain_tip_blockhash := block_hash e\<rparr>"
    by (auto simp: reorg_chain_split result_simps)
  note T = truncate_above_correct [OF cf inv F(1-3) e F(4) s2]
  have "linked [e]" by simp
  from promote_fork_sound [OF cf T(1) this s3] obtain j ws where
    j: "promoted S g (set c) j ws s2 s3" and tip: "last (j # ws) = e" by auto
  from j obtain i where i: "i < length c" "j = c ! i" by (auto simp: promoted_def in_set_conv_nth)
  have ws: "ws \<noteq> []" using tip e i by (cases ws) auto
  have heaviest: "chain_work x \<le> chain_work e" if "headers_pool s2 k = Some x" for k x
  proof -
    have "headers_pool (store_fork_header e s) k = Some x" using that T(3) [of k] by (simp split: if_splits)
    then have "x = e \<or> chain_work x \<le> chain_work (last c)"
      using D(11) [of k x] by (auto simp: store_fork_fields split: if_splits)
    then show ?thesis using heavy by auto
  qed
  have "same_settings s s2" using same_settings_trans [OF store_fork_fields(4) T(2)] .
  then have init: "mainchain_initial_blockhash s2 = mainchain_initial_blockhash s" by (simp add: same_settings_def)
  have "last ws = e" using tip ws by simp
  from promoted_chain [OF cf inv i(1) j [unfolded i(2)] ws this init heaviest]
  have "chain_inv S g (take (Suc i) c @ ws) s'" unfolding s' .
  moreover have "same_config s s'"
    using \<open>same_settings s s2\<close> j by (simp add: s' promoted_def same_settings_def same_config_def)
  moreover have "linked (c ! i # ws)" using j by (simp add: promoted_def i(2))
  ultimately show ?thesis using i(1) ws tip by auto
qed

text \<open>\<open>submit_block_header_inner\<close> implements the specification.\<close>

lemma inner_refines:
  assumes cf: "collision_free S g" and inv: "chain_inv S g c s"
    and p: "headers_pool s (block_hash p) = Some p" and ch: "child_block S p e"
    and run: "submit_block_header_inner env e p s = Inr s'"
  shows "\<exists>c'. best_chain c e c' \<and> chain_inv S g c' s' \<and> same_config s s'"
proof -
  note D = chain_invD [OF inv]
  have acc: "accepted S g p" using pool_okD [OF D(3) p] by simp
  have par: "parent_of p e" using ch by (simp add: child_block_def)
  show ?thesis
  proof (cases "block_hash p = mainchain_tip_blockhash s")
    case True
    then have "p = last c" using p D(9) by simp
    then have "best_chain c e (c @ [e])" and "child_block S (last c) e"
      using par ch by (simp_all add: best_chain.extend)
    moreover have "s' = (store_block_header e s)\<lparr>mainchain_tip_blockhash := block_hash e\<rparr>"
      using run True par by (simp add: submit_block_header_inner_def)
    moreover have "same_config s s'" using calculation(3) by (simp add: same_config_def store_block_header_def)
    ultimately show ?thesis using inner_extend [OF cf inv] by blast
  next
    case False
    then have np: "\<not> parent_of (last c) e" using par D(7) by simp
    have run': "(if chain_work (last c) < chain_work e
        then reorg_chain env e (block_height (last c)) (store_fork_header e s)
        else Inr (store_fork_header e s)) = Inr s'"
      using run False D(9) by (simp add: submit_block_header_inner_def Let_def)
    show ?thesis
    proof (cases "chain_work (last c) < chain_work e")
      case True
      with run' have "reorg_chain env e (block_height (last c)) (store_fork_header e s) = Inr s'" by simp
      from reorg_chain_correct [OF cf inv acc ch True this] best_chain.switch [OF np True] show ?thesis by blast
    next
      case False
      with run' have "s' = store_fork_header e s" by simp
      moreover from False have le: "chain_work e \<le> chain_work (last c)" by simp
      ultimately have "chain_inv S g c s'" "same_config s s'"
        using store_fork_chain(5) [OF cf inv acc ch le] store_fork_fields(4) [of s e]
        by (simp_all add: same_settings_def same_config_def)
      then show ?thesis using best_chain.keep [OF np le] by blast
    qed
  qed
qed

lemma distinct_word_range_incl: "distinct (word_range_incl a b)"
  using map_unat_word_range(2) [of a b] by (metis distinct_map distinct_upt)

lemma distinct_word_range: "distinct (word_range a b)"
  using map_unat_word_range(1) [of a b] by (metis distinct_map distinct_upt)

text \<open>Every height between the ends of the chain is the height of one of its blocks.\<close>

lemma chain_height_range:
  assumes cf: "collision_free S g" and inv: "chain_inv S g c s"
    and "block_height (hd c) \<le> n" "n \<le> block_height (last c)"
  shows "n \<in> block_height ` set c"
proof -
  note D = chain_invD [OF inv]
  have acc: "\<forall>x \<in> set c. accepted S g x" using D(6) by simp
  define i where "i = unat n - unat (block_height (hd c))"
  have i: "i < length c" using assms(3,4) linked_last_height [OF cf D(2) acc D(1)]
    by (simp add: i_def word_le_nat_alt)
  have "n = block_height (c ! i)" using linked_height_nth [OF cf D(2) acc i] assms(3)
    by (simp add: i_def word_unat_eq_iff word_le_nat_alt)
  then show ?thesis using i by simp
qed

lemma truncate_above_total:
  assumes cf: "collision_free S g" and inv: "chain_inv S g c s" and ix: "indexed (set c) s1"
    "\<And>x. x \<in> set c \<Longrightarrow> headers_pool s1 (block_hash x) = Some x"
    and low: "block_height (hd c) \<le> n"
  shows "\<exists>s2. truncate_above n (block_height (last c)) s1 = Inr s2"
proof (cases "block_height (last c) > n")
  case True
  then have "unat n + 1 < 2 ^ 64" using unat_lt_exp [of "block_height (last c)"] by (simp add: word_less_nat_alt)
  then obtain m where m: "checked_add n 1 = Inr m" by (simp add: checked_add_def)
  have "set (word_range_incl m (block_height (last c))) \<subseteq> block_height ` set c"
    using chain_height_range [OF cf inv] low from_height [OF m] by (auto simp: set_word_range_incl)
  from for_each_drop_total [OF remove_loops(1) ix(1) chain_heights_inj [OF cf inv] pool_inj [OF ix(2)]
      distinct_word_range_incl this]
  show ?thesis using True m by (simp add: truncate_above_def)
qed (simp add: truncate_above_def)

text \<open>
  A heavier block is never refused for lack of anything but gas, as long as its fork is stored down to a
  block \<open>j\<close> of the main chain: the walk takes one iteration for each block of the fork.
\<close>

lemma inner_total:
  assumes cf: "collision_free S g" and inv: "chain_inv S g c s"
    and p: "headers_pool s (block_hash p) = Some p" and ch: "child_block S p e"
    and fork: "j \<in> set c" "linked (j # ws @ [e])" "\<forall>w \<in> set ws. headers_pool s (block_hash w) = Some w"
      "set ws \<inter> set c = {}" "length ws < loop_gas env"
  shows "\<exists>s'. submit_block_header_inner env e p s = Inr s'"
proof -
  note D = chain_invD [OF inv]
  have acc: "accepted S g p" using pool_okD [OF D(3) p] by simp
  have par: "parent_of p e" using ch by (simp add: child_block_def)
  show ?thesis
  proof (cases "block_hash p = mainchain_tip_blockhash s \<or> chain_work e \<le> chain_work (last c)")
    case True
    then show ?thesis using D(9) par by (auto simp: submit_block_header_inner_def Let_def)
  next
    case False
    then have heavy: "chain_work (last c) < chain_work e" by auto
    let ?s = "store_fork_header e s"
    note F = store_fork_chain(1-4) [OF cf inv acc ch]
    have e: "e \<notin> set c" using D(5,11) heavy by fastforce
    have accs: "\<forall>x \<in> set ((j # ws) @ [e]). accepted S g x"
      using D(6) fork(1,3) pool_okD [OF D(3)] child_accepted [OF acc ch] by fastforce
    have below: "block_height j < block_height e"
      by (rule linked_below_last [OF cf _ accs]) (use fork(2) in auto)
    then have "block_height (hd c) \<le> block_height e"
      using chain_heights_le [OF cf inv fork(1)] by (meson less_imp_le order_trans)
    from truncate_above_total [OF cf inv F(2,3) this] obtain s2 where
      s2: "truncate_above (block_height e) (block_height (last c)) ?s = Inr s2" by blast
    note T = truncate_above_correct [OF cf inv F(1-3) e F(4) s2]
    have in1: "headers_pool ?s (block_hash w) = Some w" if "w \<in> set (j # ws @ [e])" for w
    proof (cases "block_hash w = block_hash e")
      case True
      have "accepted S g w" "accepted S g e" using accs that by auto
      then have "w = e" using True by (rule accepted_unique [OF cf])
      then show ?thesis using F(4) by simp
    next
      case False
      then show ?thesis using that fork(1,3) D(5) by (auto simp: store_fork_fields)
    qed
    have in2: "headers_pool s2 (block_hash w) = Some w" if "w \<in> set (j # ws @ [e])" for w
    proof -
      have "\<not> block_height e < block_height x" if x: "x \<in> set c" "block_hash x = block_hash w" for x
      proof -
        have "x = w" using F(3) [OF x(1)] in1 [OF \<open>w \<in> _\<close>] x(2) by (metis option.inject)
        then have "x = j" using x(1) e fork(4) \<open>w \<in> _\<close> by auto
        then show ?thesis using below by simp
      qed
      then show ?thesis using in1 [OF that] T(3) [of "block_hash w"] by auto
    qed
    have "\<exists>s3. promote_fork (loop_gas env) (last (j # ws @ [e])) s2 = Inr s3"
      by (rule promote_fork_total [OF cf, where path = "[]"]) (use T(1) fork e in2 in auto)
    then obtain s3 where s3: "promote_fork (loop_gas env) e s2 = Inr s3" by auto
    have "reorg_chain env e (block_height (last c)) ?s = Inr (s3\<lparr>mainchain_tip_blockhash := block_hash e\<rparr>)"
      by (simp add: reorg_chain_split s2 s3)
    then show ?thesis using False heavy D(9) by (simp add: submit_block_header_inner_def Let_def)
  qed
qed

end
