(* ===== verification/Contract.thy ===== *)
theory Contract
  imports Chain_Invariant
begin

text \<open>
  The contract's entry points over the invariant of \<open>Chain_Invariant\<close>: garbage collection, the methods
  that submit blocks, the views and the inclusion proofs. The locale \<open>submission\<close> is the interface
  between the generic contract and a chain's \<open>submit_block_header\<close>; it is interpreted in the
  theories of the four chains.
\<close>

section \<open>Garbage collection\<close>

definition gc_amount :: "'a client \<Rightarrow> nat \<Rightarrow> u64 \<Rightarrow> nat" where
  "gc_amount s n batch_size = min (n - unat (gc_threshold s)) (unat batch_size)"

lemma unat_min: "unat (min a b) = min (unat a) (unat b)"
  by (simp add: min_def word_le_nat_alt)

lemma drop_from_height:
  assumes cf: "collision_free S g" and inv: "chain_inv S g c s"
    and n: "unat n = unat (block_height (hd c)) + k"
  shows "{x \<in> set c. block_height x \<notin> set (word_range (block_height (hd c)) n)} = set (drop k c)"
    and "block_height ` set (take k c) = set (word_range (block_height (hd c)) n) \<inter> block_height ` set c"
proof -
  note D = chain_invD [OF inv]
  have acc: "\<forall>x \<in> set c. accepted S g x" using D(6) by simp
  note ht = linked_height_nth [OF cf D(2) acc]
  have mem: "block_height (c ! i) \<in> set (word_range (block_height (hd c)) n) \<longleftrightarrow> i < k" if "i < length c" for i
    using ht [OF that] n by (simp add: set_word_range word_le_nat_alt word_less_nat_alt)
  have dr: "x \<in> set (drop k c) \<longleftrightarrow> (\<exists>i. i < length c \<and> k \<le> i \<and> x = c ! i)" for x
  proof
    assume "x \<in> set (drop k c)"
    then obtain j where "j < length c - k" "x = drop k c ! j" by (auto simp: in_set_conv_nth)
    then show "\<exists>i. i < length c \<and> k \<le> i \<and> x = c ! i" by (intro exI [of _ "k + j"]) simp
  next
    assume "\<exists>i. i < length c \<and> k \<le> i \<and> x = c ! i"
    then obtain i where i: "i < length c" "k \<le> i" "x = c ! i" by blast
    then have "x = drop k c ! (i - k)" "i - k < length (drop k c)" by simp_all
    then show "x \<in> set (drop k c)" using nth_mem by metis
  qed
  have "x \<in> set c \<and> block_height x \<notin> set (word_range (block_height (hd c)) n) \<longleftrightarrow> x \<in> set (drop k c)" for x
    unfolding dr in_set_conv_nth [of x c] using mem by (metis not_less)
  then show "{x \<in> set c. block_height x \<notin> set (word_range (block_height (hd c)) n)} = set (drop k c)"
    by blast
  have tk: "x \<in> set (take k c) \<longleftrightarrow> (\<exists>i. i < length c \<and> i < k \<and> x = c ! i)" for x
    by (auto simp: in_set_conv_nth)
  show "block_height ` set (take k c) = set (word_range (block_height (hd c)) n) \<inter> block_height ` set c"
    using mem by (fastforce simp: tk image_iff in_set_conv_nth)
qed

lemma chain_inv_drop:
  assumes cf: "collision_free S g" and inv: "chain_inv S g c s" and k: "k < length c"
    and ix: "indexed (set (drop k c)) s1" and st: "same_settings s s1"
    and pool: "\<And>h. headers_pool s1 h = (if \<exists>e \<in> set (take k c). block_hash e = h then None else headers_pool s h)"
  shows "chain_inv S g (drop k c) (s1\<lparr>mainchain_initial_blockhash := block_hash (c ! k)\<rparr>)"
proof -
  note D = chain_invD [OF inv]
  have kept: "headers_pool s1 (block_hash x) = Some x" if "x \<in> set (drop k c)" for x
  proof -
    have dist: "distinct c"
      using linked_height_nth [OF cf D(2)] D(6) unfolding distinct_conv_nth by (metis add_left_cancel)
    have "y = x" if "y \<in> set (take k c)" "block_hash y = block_hash x" for y
      using D(5) [of x] D(5) [of y] that \<open>x \<in> _\<close> by (metis in_set_dropD in_set_takeD option.inject)
    moreover have "x \<notin> set (take k c)" using dist that
      by (metis append_take_drop_id distinct_append disjoint_iff)
    ultimately have "\<not> (\<exists>y \<in> set (take k c). block_hash y = block_hash x)" by metis
    then show ?thesis using pool D(5) [OF in_set_dropD [OF that]] by simp
  qed
  have "pool_ok S g s1" using D(3) by (auto simp: pool_ok_def pool split: if_splits)
  moreover have "chain_work e \<le> chain_work (last c)" if "headers_pool s1 h = Some e" for h e
    using that D(11) by (auto simp: pool split: if_splits)
  ultimately show ?thesis
    using k kept ix st D(7) linked_take_drop [OF D(2), of k]
    by (simp add: chain_inv_def pool_ok_def indexed_def same_settings_def hd_drop_conv_nth)
qed

lemma chain_size:
  assumes cf: "collision_free S g" and inv: "chain_inv S g c s"
  shows "unat (block_height (last c)) + 1 = unat (block_height (hd c)) + length c"
  using linked_last_height [OF cf] chain_invD(1,2,6) [OF inv] by blast

text \<open>
  A run removes the oldest blocks: as many as the chain exceeds the threshold by, at most the batch.
\<close>

lemma gc_correct:
  assumes cf: "collision_free S g" and inv: "chain_inv S g c s"
    and run: "run_mainchain_gc env batch_size s = Inr s'"
  shows "chain_inv S g (drop (gc_amount s (length c) batch_size) c) s' \<and> same_config s s' \<and>
    gc_amount s (length c) batch_size < length c"
proof -
  note D = chain_invD [OF inv] and size = chain_size [OF cf inv]
  define k where "k = gc_amount s (length c) batch_size"
  from run obtain diff amount :: u64 where diff: "unat (block_height (last c)) = unat (block_height (hd c)) + unat diff"
    and amount: "unat amount = Suc (unat diff)" and
    body: "(if amount > gc_threshold s then
        rbind (checked_sub amount (gc_threshold s)) (\<lambda>total.
        rbind (checked_add (block_height (hd c)) (min total batch_size)) (\<lambda>end_height.
        rbind (for_each gc_remove (word_range (block_height (hd c)) end_height) s) (\<lambda>s1.
        rbind (get_or ERR_KEY_NOT_EXIST (mainchain_height_to_header s1 end_height)) (\<lambda>initial.
        Inr (s1\<lparr>mainchain_initial_blockhash := initial\<rparr>)))))
      else Inr s) = Inr s'"
    using D(9,10) unfolding run_mainchain_gc_def pause_guard_def Let_def
    by (simp add: result_simps) blast
  have len: "unat amount = length c" using size diff amount by simp
  show ?thesis
  proof (cases "amount > gc_threshold s")
    case False
    then have "k = 0" using len by (simp add: k_def gc_amount_def word_less_nat_alt)
    then show ?thesis using body False inv D(1) by (simp add: k_def same_config_def)
  next
    case True
    with body obtain total n s1 initial where
      total: "unat amount = unat (gc_threshold s) + unat total" and
      n: "unat n = unat (block_height (hd c)) + unat (min total batch_size)" and
      loop: "for_each gc_remove (word_range (block_height (hd c)) n) s = Inr s1" and
      init: "mainchain_height_to_header s1 n = Some initial" and
      s': "s' = s1\<lparr>mainchain_initial_blockhash := initial\<rparr>"
      by (auto simp: result_simps)
    have nk: "unat n = unat (block_height (hd c)) + k"
      using n total len by (simp add: k_def gc_amount_def unat_min)
    note loop' = for_each_drop [OF remove_loops(2) loop D(4) chain_heights_inj [OF cf inv] pool_inj [OF D(5)]]
    have ix: "indexed (set (drop k c)) s1" using loop' drop_from_height(1) [OF cf inv nk] by simp
    from init obtain x where x: "x \<in> set (drop k c)" "block_height x = n" "block_hash x = initial"
      unfolding indexed_height [OF ix] by blast
    then have k: "k < length c" by (cases "k < length c") auto
    have "unat (block_height (c ! k)) = unat n"
      using linked_height_nth [OF cf D(2) _ k] D(6) nk by simp
    then have "x = c ! k"
      using x(2) in_set_dropD [OF x(1)] k by (intro inj_onD [OF chain_heights_inj [OF cf inv]]) (auto simp: word_unat_eq_iff)
    moreover have "headers_pool s1 h = (if \<exists>e \<in> set (take k c). block_hash e = h then None else headers_pool s h)" for h
    proof -
      have "(\<exists>e \<in> set c. block_hash e = h \<and> block_height e \<in> set (word_range (block_height (hd c)) n)) \<longleftrightarrow>
          (\<exists>e \<in> set (take k c). block_hash e = h)" (is "?l \<longleftrightarrow> ?r")
      proof
        assume ?l
        then obtain e where e: "e \<in> set c" "block_hash e = h" "block_height e \<in> block_height ` set (take k c)"
          unfolding drop_from_height(2) [OF cf inv nk] by blast
        then obtain y where "y \<in> set (take k c)" "block_height y = block_height e" by force
        then show ?r using e(1,2) inj_onD [OF chain_heights_inj [OF cf inv]] in_set_takeD by metis
      next
        assume ?r
        then show ?l using drop_from_height(2) [OF cf inv nk] in_set_takeD by fast
      qed
      then show ?thesis using loop' by simp
    qed
    ultimately have "chain_inv S g (drop k c) s'"
      using chain_inv_drop [OF cf inv k ix] loop' x(3) by (simp add: s')
    then show ?thesis using loop' k by (simp add: k_def s' same_settings_def same_config_def)
  qed
qed

lemma gc_total:
  assumes cf: "collision_free S g" and inv: "chain_inv S g c s"
    and allowed: "\<not> is_paused env ''run_mainchain_gc'' \<or> caller_has_role env UnrestrictedRunGC"
    and thr: "0 < gc_threshold s" and small: "length c < 2 ^ 64"
  shows "\<exists>s'. run_mainchain_gc env batch_size s = Inr s'"
proof -
  note D = chain_invD [OF inv] and size = chain_size [OF cf inv]
  define diff where "diff = block_height (last c) - block_height (hd c)"
  have le: "block_height (hd c) \<le> block_height (last c)" using chain_heights_le [OF cf inv, of "hd c"] D(1) by simp
  then have ud: "unat diff = length c - 1" using size by (simp add: diff_def unat_sub word_le_nat_alt)
  have d: "checked_sub (block_height (last c)) (block_height (hd c)) = Inr diff"
    using le by (simp add: checked_sub_def diff_def)
  have a: "checked_add diff 1 = Inr (diff + 1)" and ua: "unat (diff + 1) = length c"
    using ud small D(1) by (auto simp: checked_add_def unat_word_ariths)
  show ?thesis
  proof (cases "gc_threshold s < diff + 1")
    case False
    then show ?thesis using allowed by (auto simp: run_mainchain_gc_def pause_guard_def D(9,10) d a)
  next
    case True
    define total where "total = diff + 1 - gc_threshold s"
    define k where "k = min total batch_size"
    have t: "checked_sub (diff + 1) (gc_threshold s) = Inr total"
      using True by (simp add: checked_sub_def total_def)
    then have k: "unat k < length c" using ua thr by (simp add: checked_sub_Inr k_def unat_min word_less_nat_alt)
    then have "unat (block_height (hd c)) + unat k < 2 ^ 64"
      using size unat_lt_exp [of "block_height (last c)"] by simp
    then obtain n where n: "checked_add (block_height (hd c)) k = Inr n" by (simp add: checked_add_def)
    then have nk: "unat n = unat (block_height (hd c)) + unat k" by (simp add: checked_add_Inr)
    have sub: "set (word_range (block_height (hd c)) n) \<subseteq> block_height ` set c"
      using chain_height_range [OF cf inv] nk k size by (auto simp: set_word_range word_less_nat_alt word_le_nat_alt)
    from for_each_drop_total [OF remove_loops(2) D(4) chain_heights_inj [OF cf inv] pool_inj [OF D(5)] distinct_word_range this]
    obtain s1 where s1: "for_each gc_remove (word_range (block_height (hd c)) n) s = Inr s1" by blast
    have ix: "indexed (set (drop (unat k) c)) s1"
      using for_each_drop [OF remove_loops(2) s1 D(4) chain_heights_inj [OF cf inv] pool_inj [OF D(5)]]
        drop_from_height(1) [OF cf inv nk] by simp
    have "c ! unat k \<in> set (drop (unat k) c)" using k by (metis Cons_nth_drop_Suc list.set_intros(1))
    moreover have "block_height (c ! unat k) = n"
      using linked_height_nth [OF cf D(2) _ k] D(6) nk by (simp add: word_unat_eq_iff)
    ultimately obtain h where "mainchain_height_to_header s1 n = Some h"
      using indexed_height_None [OF ix, of n] by (cases "mainchain_height_to_header s1 n") auto
    then show ?thesis using True allowed t n s1
      by (auto simp: run_mainchain_gc_def pause_guard_def D(9,10) d a Let_def k_def [symmetric])
  qed
qed

section \<open>The interface between the contract and a chain\<close>

text \<open>
  The hash and the light form under which a block is stored, and what the contract relies on: a successful submission looks up the parent in the pool, builds the stored
  form of the block from it and hands both to \<open>submit_block_header_inner\<close>; and where the checks are
  skipped, a child of the tip is stored as the new tip unless its work or height overflows.
\<close>

definition entry :: "('h, 'a, 'b) chain \<Rightarrow> ('b \<Rightarrow> 'h header_base_scheme) \<Rightarrow> host \<Rightarrow> 'b \<Rightarrow>
    h256 \<times> 'a header_base_scheme" where
  "entry C header_of env b = (header_hash C env (header_of b), into_light C (header_of b))"

locale submission =
  fixes C :: "('h, 'a, 'b) chain" and header_of :: "'b \<Rightarrow> 'h header_base_scheme"
  assumes submit_Inr: "submit_header C env b skip s = Inr s' \<Longrightarrow>
      \<exists>p e. headers_pool s (prev_block_hash (into_light C (header_of b))) = Some p \<and>
        block_header e = into_light C (header_of b) \<and> block_hash e = header_hash C env (header_of b) \<and>
        val (chain_work e) = val (chain_work p) + block_work (bits (header_of b)) \<and>
        unat (block_height e) = Suc (unat (block_height p)) \<and>
        submit_block_header_inner env e p s = Inr s'"
    and submit_on_tip: "headers_pool s (mainchain_tip_blockhash s) = Some p \<Longrightarrow> block_hash p = mainchain_tip_blockhash s \<Longrightarrow>
      prev_block_hash (into_light C (header_of b)) = block_hash p \<Longrightarrow>
      val (chain_work p) + block_work (bits (header_of b)) < B256 \<Longrightarrow> Suc (unat (block_height p)) < 2 ^ 64 \<Longrightarrow>
      \<exists>e. submit_header C env b True s =
          Inr ((store_block_header e s)\<lparr>mainchain_tip_blockhash := block_hash e\<rparr>) \<and>
        block_header e = into_light C (header_of b) \<and> block_hash e = header_hash C env (header_of b) \<and>
        val (chain_work e) = val (chain_work p) + block_work (bits (header_of b)) \<and>
        unat (block_height e) = Suc (unat (block_height p))"
    and light_bits: "bits (into_light C h) = bits h"
    and header_of_genesis: "header_of (genesis_submission C h) = h"
begin

lemma submit_refines:
  assumes cf: "collision_free S g" and inv: "chain_inv S g c s" and mem: "entry C header_of env b \<in> S"
    and run: "submit_header C env b skip s = Inr s'"
  shows "\<exists>c' e. best_chain c e c' \<and> block_header e = into_light C (header_of b) \<and> chain_inv S g c' s' \<and>
    same_config s s' \<and> chain_work (last c) \<le> chain_work (last c')"
proof -
  from submit_Inr [OF run] obtain p e where
    p: "headers_pool s (prev_block_hash (into_light C (header_of b))) = Some p" and
    e: "block_header e = into_light C (header_of b)" "block_hash e = header_hash C env (header_of b)"
      "val (chain_work e) = val (chain_work p) + block_work (bits (header_of b))"
      "unat (block_height e) = Suc (unat (block_height p))" and
    inner: "submit_block_header_inner env e p s = Inr s'" by blast
  have hash: "block_hash p = prev_block_hash (into_light C (header_of b))"
    using pool_okD [OF chain_invD(3) [OF inv] p] by simp
  have ch: "child_block S p e"
    using e mem hash by (simp add: child_block_def entry_def light_bits)
  have "headers_pool s (block_hash p) = Some p" using p hash by simp
  from inner_refines [OF cf inv this ch inner] obtain c' where
    c': "best_chain c e c'" "chain_inv S g c' s'" "same_config s s'" by blast
  have "chain_work (last c) \<le> chain_work (last c')" using c'(1)
  proof cases
    case extend
    then have "child_block S (last c) e"
      using ch hash p chain_invD(9,7) [OF inv] e(1) by (simp add: child_block_def)
    then show ?thesis using child_heavier extend(1) by fastforce
  qed auto
  then show ?thesis using c' e(1) by blast
qed

lemma for_each_submit:
  assumes cf: "collision_free S g" and inv: "chain_inv S g c s" and mem: "\<forall>b \<in> set bs. entry C header_of env b \<in> S"
    and run: "for_each (\<lambda>b s. submit_header C env b (skip s) s) bs s = Inr s'"
  shows "\<exists>c'. chain_inv S g c' s' \<and> same_config s s' \<and> chain_work (last c) \<le> chain_work (last c')"
  using inv mem run
proof (induction bs arbitrary: c s)
  case Nil
  then show ?case by (auto simp: same_config_def)
next
  case (Cons b bs)
  then obtain s1 where s1: "submit_header C env b (skip s) s = Inr s1"
    and rest: "for_each (\<lambda>b s. submit_header C env b (skip s) s) bs s1 = Inr s'" by (auto simp: result_simps)
  from submit_refines [OF cf Cons.prems(1) _ s1] Cons.prems(2) obtain c1 where
    c1: "chain_inv S g c1 s1" "same_config s s1" "chain_work (last c) \<le> chain_work (last c1)" by auto
  from Cons.IH [OF c1(1) _ rest] Cons.prems(2) obtain c' where
    "chain_inv S g c' s'" "same_config s1 s'" "chain_work (last c1) \<le> chain_work (last c')" by auto
  then show ?case using c1 same_config_trans order_trans by blast
qed

lemma submit_blocks_correct:
  assumes cf: "collision_free S g" and inv: "chain_inv S g c s" and mem: "\<forall>b \<in> set bs. entry C header_of env b \<in> S"
    and run: "submit_blocks C storage_usage env bs s = Inr (r, s')"
  shows "\<exists>c'. chain_inv S g c' s' \<and> same_config s s' \<and> chain_work (last c) \<le> chain_work (last c')"
proof -
  from run obtain s1 where
    s1: "for_each (\<lambda>header s. submit_header C env header (skip_pow_verification s) s) bs s = Inr s1" and
    gc: "run_mainchain_gc env (word_of_nat (length bs)) s1 = Inr s'"
    unfolding submit_blocks_def pause_guard_def trusted_relayer_guard_def Let_def
    by (auto simp: result_simps)
  from for_each_submit [OF cf inv mem s1] obtain c1 where
    c1: "chain_inv S g c1 s1" "same_config s s1" "chain_work (last c) \<le> chain_work (last c1)" by blast
  from gc_correct [OF cf c1(1) gc] obtain k where
    "chain_inv S g (drop k c1) s'" "same_config s1 s'" "k < length c1" by blast
  then show ?thesis using c1(2,3) same_config_trans by (metis last_drop)
qed

end

section \<open>Reachable states\<close>

text \<open>The genesis block in its stored form.\<close>

definition genesis_of :: "('h, 'a, 'b) chain \<Rightarrow> host \<Rightarrow> 'h header_base_scheme init_args \<Rightarrow> 'a ext_header result" where
  "genesis_of C env args =
     (case submit_blocks_arg args of [] \<Rightarrow> Inl Unwrap
      | header # rest \<Rightarrow> rbind (work_from_bits (bits header)) (\<lambda>work.
          Inr \<lparr>block_header = into_light C header, block_hash = header_hash C env header,
               chain_work = work, block_height = genesis_block_height args\<rparr>))"

text \<open>One call of a method that changes the state, by anybody and in any environment.\<close>

inductive contract_step :: "('h, 'a, 'b) chain \<Rightarrow> ('b \<Rightarrow> 'h header_base_scheme) \<Rightarrow>
    (h256 \<times> 'a header_base_scheme) set \<Rightarrow> 'a client \<Rightarrow> 'a client \<Rightarrow> bool" for C header_of S where
  submit: "submit_blocks C storage_usage env bs s = Inr (r, s') \<Longrightarrow> \<forall>b \<in> set bs. entry C header_of env b \<in> S \<Longrightarrow>
    contract_step C header_of S s s'"
| gc: "run_mainchain_gc env batch_size s = Inr s' \<Longrightarrow> contract_step C header_of S s s'"

inductive reachable :: "('h, 'a, 'b) chain \<Rightarrow> ('b \<Rightarrow> 'h header_base_scheme) \<Rightarrow>
    (h256 \<times> 'a header_base_scheme) set \<Rightarrow> 'a ext_header \<Rightarrow> 'a client \<Rightarrow> bool" for C header_of S g where
  init: "init C env args = Inr s \<Longrightarrow> genesis_of C env args = Inr g \<Longrightarrow>
    \<forall>h \<in> set (submit_blocks_arg args). entry C header_of env (genesis_submission C h) \<in> S \<Longrightarrow>
    reachable C header_of S g s"
| step: "reachable C header_of S g s \<Longrightarrow> contract_step C header_of S s s' \<Longrightarrow> reachable C header_of S g s'"

inductive_cases contract_stepE: "contract_step C header_of S s s'"

lemma for_each_map: "for_each f (map h xs) s = for_each (\<lambda>x. f (h x)) xs s"
  by (induction xs arbitrary: s) auto

lemma chain_inv_start:
  fixes s :: "'a client"
  assumes "headers_pool s = Map.empty"
    "mainchain_height_to_header s = Map.empty" "mainchain_header_to_height s = Map.empty"
  shows "chain_inv S g [g] ((store_block_header g s)\<lparr>mainchain_initial_blockhash := block_hash g,
    mainchain_tip_blockhash := block_hash g\<rparr>)"
proof -
  have "indexed (insert g {}) (store_block_header g s)"
    by (rule indexed_store) (simp_all add: indexed_def assms(2,3))
  moreover have "indexed X (t\<lparr>mainchain_initial_blockhash := a, mainchain_tip_blockhash := b\<rparr>) \<longleftrightarrow> indexed X t"
    for X a b and t :: "'a client"
    by (simp add: indexed_def)
  moreover have pool: "headers_pool (store_block_header g s) = [block_hash g \<mapsto> g]"
    using assms(1) by (simp add: store_block_header_def)
  ultimately show ?thesis
    by (auto simp: chain_inv_def pool_ok_def pool accepted.genesis split: if_splits)
qed

context submission
begin

lemma init_correct:
  assumes cf: "collision_free S g" and run: "init C env args = Inr s" and g: "genesis_of C env args = Inr g"
    and mem: "\<forall>h \<in> set (submit_blocks_arg args). entry C header_of env (genesis_submission C h) \<in> S"
  shows "\<exists>c. chain_inv S g c s"
proof -
  from g obtain header rest w where hs: "submit_blocks_arg args = header # rest"
    and w: "work_from_bits (bits header) = Inr w"
    and g': "g = \<lparr>block_header = into_light C header, block_hash = header_hash C env header,
      chain_work = w, block_height = genesis_block_height args\<rparr>"
    by (auto simp: genesis_of_def rbind_Inr split: list.splits)
  define s0 where "s0 = \<lparr>mainchain_height_to_header = Map.empty, mainchain_header_to_height = Map.empty,
    mainchain_tip_blockhash = h256_default, mainchain_initial_blockhash = h256_default,
    headers_pool = Map.empty :: h256 \<rightharpoonup> 'a ext_header, skip_pow_verification = arg_skip_pow_verification args,
    gc_threshold = arg_gc_threshold args, network = arg_network args\<rparr>"
  define s1 where "s1 = (store_block_header g s0)\<lparr>mainchain_initial_blockhash := block_hash g,
    mainchain_tip_blockhash := block_hash g\<rparr>"
  have loop: "for_each (\<lambda>h. submit_header C env (genesis_submission C h) True) rest s1 = Inr s"
    using run unfolding init_def init_genesis_def hs s0_def [symmetric]
    by (auto simp: rbind_Inr req_Inr w g' s1_def Let_def)
  have inv: "chain_inv S g [g] s1"
    unfolding s1_def by (rule chain_inv_start) (simp_all add: s0_def)
  have run': "for_each (\<lambda>b s. submit_header C env b True s) (map (genesis_submission C) rest) s1 = Inr s"
    using loop by (simp add: for_each_map)
  have "\<forall>b \<in> set (map (genesis_submission C) rest). entry C header_of env b \<in> S" using mem hs by auto
  from for_each_submit [OF cf inv this, of "\<lambda>_. True"] run' show ?thesis by blast
qed

lemma step_correct:
  assumes cf: "collision_free S g" and inv: "chain_inv S g c s" and step: "contract_step C header_of S s s'"
  shows "\<exists>c'. chain_inv S g c' s' \<and> chain_work (last c) \<le> chain_work (last c')"
  using step
proof cases
  case (submit storage_usage env bs r)
  then show ?thesis using submit_blocks_correct [OF cf inv submit(2,1)] by blast
next
  case (gc env batch_size)
  from gc_correct [OF cf inv gc] show ?thesis by (metis last_drop order_refl)
qed

lemma reachable_inv: "reachable C header_of S g s \<Longrightarrow> collision_free S g \<Longrightarrow> \<exists>c. chain_inv S g c s"
  by (induction rule: reachable.induct) (blast dest: init_correct step_correct)+

text \<open>The work of the tip never decreases, so it bounds the work of every block that was ever stored.\<close>

lemma steps_heaviest:
  assumes cf: "collision_free S g" and "reachable C header_of S g s" and "(contract_step C header_of S)\<^sup>*\<^sup>* s s'"
    and "headers_pool s h = Some e"
  shows "\<exists>tip. get_last_block_header s' = Inr tip \<and> chain_work e \<le> chain_work tip"
proof -
  have "\<exists>c. chain_inv S g c s' \<and> chain_work e \<le> chain_work (last c)"
    using assms(3)
  proof (induction rule: rtranclp_induct)
    case base
    then show ?case using reachable_inv [OF assms(2) cf] chain_invD(11) assms(4) by blast
  next
    case (step s1 s2)
    then show ?case using step_correct [OF cf] order_trans by blast
  qed
  then show ?thesis using chain_invD(9) by (fastforce simp: get_last_block_header_def)
qed

end

section \<open>Initialisation succeeds\<close>

fun hash_linked :: "('h, 'a, 'b) chain \<Rightarrow> host \<Rightarrow> 'h header_base_scheme list \<Rightarrow> bool" where
  "hash_linked C env (p # h # hs) \<longleftrightarrow>
     prev_block_hash (into_light C h) = header_hash C env p \<and> hash_linked C env (h # hs)"
| "hash_linked C env hs \<longleftrightarrow> True"

definition total_work :: "'h header_base_scheme list \<Rightarrow> nat" where
  "total_work hs = (\<Sum>h \<leftarrow> hs. block_work (bits h))"

text \<open>The arguments are a chain of headers that starts in the announced genesis block.\<close>

definition good_init_args :: "('h, 'a, 'b) chain \<Rightarrow> host \<Rightarrow> 'h header_base_scheme init_args \<Rightarrow> bool" where
  "good_init_args C env args \<longleftrightarrow> submit_blocks_arg args \<noteq> [] \<and>
     header_hash C env (hd (submit_blocks_arg args)) = genesis_block_hash args \<and>
     hash_linked C env (submit_blocks_arg args) \<and>
     genesis_check C (arg_network args) (genesis_block_height args) (length (submit_blocks_arg args)) = Inr () \<and>
     total_work (submit_blocks_arg args) < B256 \<and>
     unat (genesis_block_height args) + length (submit_blocks_arg args) < 2 ^ 64 \<and>
     \<not> state_exists env \<and> is_self_call env \<and> acl_init_super_admin env"

context submission
begin

lemma submit_linked:
  assumes "headers_pool s (mainchain_tip_blockhash s) = Some p" "block_hash p = mainchain_tip_blockhash s"
    and "block_hash p = header_hash C env h" "hash_linked C env (h # hs)"
    and "val (chain_work p) + total_work hs < B256" "unat (block_height p) + length hs < 2 ^ 64"
  shows "\<exists>s' e. for_each (\<lambda>h. submit_header C env (genesis_submission C h) True) hs s = Inr s' \<and>
    get_last_block_header s' = Inr e \<and> block_hash e = header_hash C env (last (h # hs)) \<and>
    unat (block_height e) = unat (block_height p) + length hs \<and>
    val (chain_work e) = val (chain_work p) + total_work hs"
  using assms
proof (induction hs arbitrary: s p h)
  case Nil
  then show ?case by (simp add: get_last_block_header_def total_work_def)
next
  case (Cons x hs)
  have tw: "total_work (x # hs) = block_work (bits x) + total_work hs" by (simp add: total_work_def)
  have "val (chain_work p) + block_work (bits x) < B256" using Cons.prems(5) unfolding tw by linarith
  moreover have "Suc (unat (block_height p)) < 2 ^ 64" using Cons.prems(6) by simp
  moreover have "prev_block_hash (into_light C x) = block_hash p" using Cons.prems(3,4) by simp
  ultimately obtain e where
    run: "submit_header C env (genesis_submission C x) True s =
      Inr ((store_block_header e s)\<lparr>mainchain_tip_blockhash := block_hash e\<rparr>)" and
    e: "block_hash e = header_hash C env x" "val (chain_work e) = val (chain_work p) + block_work (bits x)"
      "unat (block_height e) = Suc (unat (block_height p))"
    using submit_on_tip [OF Cons.prems(1,2), of "genesis_submission C x" env] by (auto simp: header_of_genesis)
  let ?s = "(store_block_header e s)\<lparr>mainchain_tip_blockhash := block_hash e\<rparr>"
  have "\<exists>s' e'. for_each (\<lambda>h. submit_header C env (genesis_submission C h) True) hs ?s = Inr s' \<and>
    get_last_block_header s' = Inr e' \<and> block_hash e' = header_hash C env (last (x # hs)) \<and>
    unat (block_height e') = unat (block_height e) + length hs \<and>
    val (chain_work e') = val (chain_work e) + total_work hs"
    using Cons.prems(4-6) by (intro Cons.IH) (simp_all add: store_block_header_def e tw add.assoc)
  then show ?case by (simp add: run e tw add.assoc)
qed

lemma init_total:
  assumes "good_init_args C env args"
  shows "\<exists>s e. init C env args = Inr s \<and> get_last_block_header s = Inr e \<and>
    block_hash e = header_hash C env (last (submit_blocks_arg args)) \<and>
    unat (block_height e) + 1 = unat (genesis_block_height args) + length (submit_blocks_arg args) \<and>
    val (chain_work e) = total_work (submit_blocks_arg args)"
proof -
  note G = assms [unfolded good_init_args_def]
  from G obtain h hs where hs: "submit_blocks_arg args = h # hs" by (cases "submit_blocks_arg args") auto
  obtain w where w: "work_from_bits (bits h) = Inr w" "val w = block_work (bits h)" using work_from_bits_total by blast
  define p where "p = \<lparr>block_header = into_light C h, block_hash = header_hash C env h, chain_work = w,
    block_height = genesis_block_height args\<rparr>"
  define s0 where "s0 = \<lparr>mainchain_height_to_header = Map.empty, mainchain_header_to_height = Map.empty,
    mainchain_tip_blockhash = h256_default, mainchain_initial_blockhash = h256_default,
    headers_pool = Map.empty :: h256 \<rightharpoonup> 'a ext_header, skip_pow_verification = arg_skip_pow_verification args,
    gc_threshold = arg_gc_threshold args, network = arg_network args\<rparr>"
  define s1 where "s1 = (store_block_header p s0)\<lparr>mainchain_initial_blockhash := block_hash p,
    mainchain_tip_blockhash := block_hash p\<rparr>"
  have run: "init C env args = for_each (\<lambda>h. submit_header C env (genesis_submission C h) True) hs s1"
    using G w(1) unfolding init_def init_genesis_def hs s0_def [symmetric]
    by (simp add: s1_def p_def Let_def) (simp add: s0_def)
  have tw: "total_work (h # hs) = val (chain_work p) + total_work hs" by (simp add: total_work_def p_def w(2))
  have "\<exists>s' e. for_each (\<lambda>h. submit_header C env (genesis_submission C h) True) hs s1 = Inr s' \<and>
    get_last_block_header s' = Inr e \<and> block_hash e = header_hash C env (last (h # hs)) \<and>
    unat (block_height e) = unat (block_height p) + length hs \<and>
    val (chain_work e) = val (chain_work p) + total_work hs"
  proof (rule submit_linked)
    show "headers_pool s1 (mainchain_tip_blockhash s1) = Some p" by (simp add: s1_def store_block_header_def)
    show "val (chain_work p) + total_work hs < B256" using G tw unfolding hs by metis
  qed (use G in \<open>simp_all add: s1_def p_def hs\<close>)
  then show ?thesis unfolding run hs tw by (auto simp: p_def)
qed

end

text \<open>The tip before and after a submission.\<close>

lemma tip_of_chain: "chain_inv S g c s \<Longrightarrow> get_last_block_header s = Inr (last c)"
  using chain_invD(9) by (fastforce simp: get_last_block_header_def)

lemma extended_tip:
  assumes "collision_free S g" "chain_inv S g c s" "headers_pool s (block_hash p) = Some p" "child_block S p e"
    and "best_chain c e c'"
  shows "last c' = (if chain_work (last c) < chain_work e then e else last c)"
  using assms(5)
proof cases
  case extend
  then have "block_hash p = block_hash (last c)" using assms(4) by (simp add: child_block_def)
  then have "p = last c" using assms(3) chain_invD(7,9) [OF assms(2)] by simp
  then show ?thesis using child_heavier [OF assms(4)] extend by simp
qed auto

end
