(* ===== verification/Inclusion.thy ===== *)
theory Inclusion
  imports Contract
begin

text \<open>
  The read-only methods over the invariant: the views return parts of the main chain, and the inclusion
  checks accept exactly the transactions whose path ends in the Merkle root of a sufficiently confirmed
  main chain block.
\<close>

section \<open>Views\<close>

lemma hash_height_agree:
  assumes "chain_inv S g c s"
  shows "get_block_hash_by_height s n = Some h \<longleftrightarrow> get_height_by_block_hash s h = Some n"
  unfolding get_block_hash_by_height_def get_height_by_block_hash_def
    indexed_height [OF chain_invD(4) [OF assms]] indexed_hash [OF chain_invD(4) [OF assms]] by blast

lemma hash_at_height:
  assumes cf: "collision_free S g" and inv: "chain_inv S g c s" and i: "i < length c"
    and n: "unat n = unat (block_height (hd c)) + i"
  shows "mainchain_height_to_header s n = Some (block_hash (c ! i))"
    and "get_header_by_height s n = Inr (c ! i)"
proof -
  note D = chain_invD [OF inv]
  have "block_height (c ! i) = n"
    using linked_height_nth [OF cf D(2) _ i] D(6) n by (simp add: word_unat_eq_iff)
  then show "mainchain_height_to_header s n = Some (block_hash (c ! i))"
    unfolding indexed_height [OF D(4)] using i nth_mem by blast
  then show "get_header_by_height s n = Inr (c ! i)"
    using D(5) i by (simp add: get_header_by_height_def)
qed

lemma mainchain_size:
  assumes cf: "collision_free S g" and inv: "chain_inv S g c s" and "length c < 2 ^ 64"
  shows "\<exists>n. get_mainchain_size s = Inr n \<and> unat n = length c"
proof -
  note D = chain_invD [OF inv] and size = chain_size [OF cf inv]
  define d where "d = block_height (last c) - block_height (hd c)"
  have le: "block_height (hd c) \<le> block_height (last c)" using size D(1) by (cases c) (auto simp: word_le_nat_alt)
  then have "checked_sub (block_height (last c)) (block_height (hd c)) = Inr d" "unat d = length c - 1"
    using size by (simp_all add: checked_sub_def d_def unat_sub word_le_nat_alt)
  then show ?thesis using assms(3) D(1)
    by (auto simp: get_mainchain_size_def D(9,10) checked_add_def unat_word_ariths)
qed

lemma map_filter_all: "(\<And>x. x \<in> set xs \<Longrightarrow> f x = Some (h x)) \<Longrightarrow> List.map_filter f xs = map h xs"
  by (induction xs) (auto simp: List.map_filter_def)

text \<open>The hashes between two heights of the chain.\<close>

lemma hashes_in_range:
  assumes cf: "collision_free S g" and inv: "chain_inv S g c s"
    and a: "unat a = unat (block_height (hd c)) + i" and b: "unat b + 1 = unat (block_height (hd c)) + j"
    and j: "j \<le> length c"
  shows "List.map_filter (mainchain_height_to_header s) (word_range_incl a b) = map block_hash (drop i (take j c))"
proof -
  let ?o = "unat (block_height (hd c))"
  have lookup: "mainchain_height_to_header s n = Some (block_hash (c ! (unat n - ?o)))"
    if "n \<in> set (word_range_incl a b)" for n
    using that a b j by (intro hash_at_height(1) [OF cf inv]) (auto simp: set_word_range_incl word_le_nat_alt)
  have "List.map_filter (mainchain_height_to_header s) (word_range_incl a b) =
      map (\<lambda>n. block_hash (c ! (n - ?o))) (map unat (word_range_incl a b))"
    by (subst map_filter_all [OF lookup]) simp_all
  also have "\<dots> = map (\<lambda>n. block_hash (c ! (n - ?o))) (map (\<lambda>m. m + ?o) [i ..< j])"
  proof -
    have "[unat a ..< Suc (unat b)] = map (\<lambda>m. m + ?o) [i ..< j]"
      using a b by (intro nth_equalityI) (simp_all del: upt_Suc)
    then show ?thesis by (simp only: map_unat_word_range(2))
  qed
  also have "\<dots> = map block_hash (drop i (take j c))"
    using j by (intro nth_equalityI) auto
  finally show ?thesis .
qed

lemma last_n_hashes:
  assumes cf: "collision_free S g" and inv: "chain_inv S g c s"
    and fit: "0 < limit" "unat limit + unat skip \<le> unat (block_height (last c))"
  shows "get_last_n_blocks_hashes s skip limit =
    Inr (map block_hash (drop (length c - unat skip - unat limit) (take (length c - unat skip) c)))"
proof -
  note D = chain_invD [OF inv] and size = chain_size [OF cf inv]
  let ?tip = "block_height (last c)" and ?o = "unat (block_height (hd c))"
  define d1 d2 where "d1 = ?tip - limit" and "d2 = d1 - skip"
  have d1: "checked_sub ?tip limit = Inr d1" "unat d1 = unat ?tip - unat limit"
    using fit(2) by (simp_all add: checked_sub_def d1_def word_le_nat_alt unat_sub)
  have d2: "checked_sub d1 skip = Inr d2" "unat d2 = unat ?tip - unat limit - unat skip"
    using fit(2) d1(2) by (simp_all add: checked_sub_def d2_def word_le_nat_alt unat_sub)
  have e: "checked_sub ?tip skip = Inr (?tip - skip)" "unat (?tip - skip) = unat ?tip - unat skip"
    using fit(2) by (simp_all add: checked_sub_def word_le_nat_alt unat_sub)
  have "unat d2 + 1 < 2 ^ 64" using d2(2) fit unat_lt_exp [of ?tip] by (simp add: word_less_nat_alt)
  then have d3: "checked_add d2 1 = Inr (d2 + 1)" "unat (d2 + 1) = unat d2 + 1"
    by (simp_all add: checked_add_def unat_word_ariths)
  define a where "a = max (block_height (hd c)) (d2 + 1)"
  have "unat a = max ?o (unat d2 + 1)" by (simp add: a_def max_def word_le_nat_alt d3(2))
  then have a: "unat a = ?o + (length c - unat skip - unat limit)" using d2(2) size fit by (simp add: word_less_nat_alt)
  have run: "get_last_n_blocks_hashes s skip limit =
      Inr (List.map_filter (mainchain_height_to_header s) (word_range_incl a (?tip - skip)))"
    by (simp add: get_last_n_blocks_hashes_def D(9,10) d1(1) d2(1) d3(1) e(1) a_def)
  show ?thesis
  proof (cases "unat skip \<le> length c")
    case True
    then have "unat (?tip - skip) + 1 = ?o + (length c - unat skip)" using e(2) size fit by simp
    from hashes_in_range [OF cf inv a this] show ?thesis by (simp add: run)
  next
    case False
    then have "word_range_incl a (?tip - skip) = []" using a e(2) size fit
      by (simp add: word_range_incl_def)
    then show ?thesis using False by (simp add: run List.map_filter_def)
  qed
qed

text \<open>Asking for more blocks than there are below the tip is an error, whatever is stored.\<close>

lemma last_n_hashes_underflow:
  assumes inv: "chain_inv S g c s" and big: "unat (block_height (last c)) < unat limit + unat skip"
  shows "get_last_n_blocks_hashes s skip limit = Inl Overflow"
proof -
  note D = chain_invD [OF inv]
  show ?thesis
  proof (cases "limit \<le> block_height (last c)")
    case True
    then have "\<not> skip \<le> block_height (last c) - limit"
      using big by (simp add: word_le_nat_alt unat_sub)
    then show ?thesis using True by (simp add: get_last_n_blocks_hashes_def D(9,10) checked_sub_def)
  qed (simp add: get_last_n_blocks_hashes_def D(9,10) checked_sub_def)
qed

section \<open>Transaction inclusion\<close>

text \<open>
  What \<open>verify_transaction_inclusion\<close> checks: the block is on the main chain with enough confirmations,
  and the path leads to its Merkle root.
\<close>

lemma confirmations_of:
  assumes cf: "collision_free S g" and inv: "chain_inv S g c s" and i: "i < length c" and "length c < 2 ^ 64"
  shows "\<exists>n. checked_add (saturating_sub_w (block_height (last c)) (block_height (c ! i))) 1 = Inr n \<and>
    unat n = length c - i"
proof -
  note D = chain_invD [OF inv]
  have "unat (block_height (c ! i)) = unat (block_height (hd c)) + i"
    using linked_height_nth [OF cf D(2) _ i] D(6) by simp
  then have d: "unat (saturating_sub_w (block_height (last c)) (block_height (c ! i))) = length c - i - 1"
    using chain_size [OF cf inv] by simp
  have "length c - i - 1 + 1 = length c - i" "length c - i < 2 ^ 64" using assms(4) i by auto
  with d show ?thesis by (auto simp: checked_add_def unat_word_ariths)
qed

lemma usize_position:
  "usize_try_from w = Some k \<Longrightarrow>
   compute_root_from_merkle_proof env h k ps = path_root env h (unat w) ps"
  by (auto simp: usize_try_from_def compute_root_path unsigned_ucast_eq take_bit_nat_eq_self split: if_splits)

lemma verify_on_chain:
  assumes cf: "collision_free S g" and inv: "chain_inv S g c s" and small: "length c < 2 ^ 64"
    and i: "i < length c" "block_hash (c ! i) = tx_block_blockhash args"
  shows "verify_transaction_inclusion env s args = Inr True \<longleftrightarrow>
    \<not> is_paused env ''verify_transaction_inclusion'' \<and> confirmations args \<le> gc_threshold s \<and>
    unat (confirmations args) \<le> length c - i \<and> merkle_proof args \<noteq> [] \<and> unat (tx_index args) < 2 ^ 32 \<and>
    path_root env (tx_id args) (unat (tx_index args)) (merkle_proof args) = merkle_root (block_header (c ! i))"
proof -
  note D = chain_invD [OF inv]
  have pool: "headers_pool s (tx_block_blockhash args) = Some (c ! i)" using D(5) i nth_mem by metis
  have ht: "mainchain_header_to_height s (tx_block_blockhash args) = Some (block_height (c ! i))"
    unfolding indexed_hash [OF D(4)] using i nth_mem by blast
  obtain n where n: "checked_add (saturating_sub_w (block_height (last c)) (block_height (c ! i))) 1 = Inr n"
    "unat n = length c - i" using confirmations_of [OF cf inv i(1) small] by blast
  have enough: "n \<ge> confirmations args \<longleftrightarrow> unat (confirmations args) \<le> length c - i"
    using n(2) by (simp add: word_le_nat_alt)
  have "verify_transaction_inclusion env s args = Inr True \<longleftrightarrow>
      \<not> is_paused env ''verify_transaction_inclusion'' \<and> confirmations args \<le> gc_threshold s \<and>
      n \<ge> confirmations args \<and> merkle_proof args \<noteq> [] \<and> (\<exists>k. usize_try_from (tx_index args) = Some k \<and>
      compute_root_from_merkle_proof env (tx_id args) k (merkle_proof args) = merkle_root (block_header (c ! i)))"
    by (simp add: verify_transaction_inclusion_def pause_guard_def D(9) ht pool n(1) rbind_Inr req_Inr get_or_Inr)
  also have "(\<exists>k. usize_try_from (tx_index args) = Some k \<and>
      compute_root_from_merkle_proof env (tx_id args) k (merkle_proof args) = merkle_root (block_header (c ! i))) \<longleftrightarrow>
    unat (tx_index args) < 2 ^ 32 \<and>
    path_root env (tx_id args) (unat (tx_index args)) (merkle_proof args) = merkle_root (block_header (c ! i))"
    using usize_position [of "tx_index args" _ env "tx_id args" "merkle_proof args"]
    by (auto simp: usize_try_from_def)
  finally show ?thesis unfolding enough by blast
qed

lemma verify_off_chain:
  assumes inv: "chain_inv S g c s" and "\<forall>x \<in> set c. block_hash x \<noteq> tx_block_blockhash args"
  shows "verify_transaction_inclusion env s args \<noteq> Inr b"
proof -
  have "mainchain_header_to_height s (tx_block_blockhash args) = None"
    unfolding indexed_hash_None [OF chain_invD(4) [OF inv]] using assms(2) .
  then show ?thesis by (simp add: verify_transaction_inclusion_def pause_guard_def rbind_Inr req_Inr)
qed

lemma verify_chain_block:
  assumes "chain_inv S g c s" "verify_transaction_inclusion env s args = Inr True"
  obtains i where "i < length c" "block_hash (c ! i) = tx_block_blockhash args"
proof -
  have "\<exists>x \<in> set c. block_hash x = tx_block_blockhash args"
    using verify_off_chain [OF assms(1)] assms(2) by blast
  then show thesis using that by (auto simp: in_set_conv_nth)
qed

text \<open>
  Version 2 also checks a path for the coinbase transaction, of the same length. If \<open>coinbase_tx_id\<close> is
  the first transaction of the block, this pins down the height of the tree, so that the accepted
  transaction is one of the block and no inner node of its tree.
\<close>

lemma verify_v2_Inr:
  assumes inv: "chain_inv S g c s" and run: "verify_transaction_inclusion_v2 env s args = Inr True"
  obtains i where "i < length c" "block_hash (c ! i) = tx_block_blockhash args"
    "verify_transaction_inclusion env s (proof_args_from_v2 args) = Inr True"
    "length (merkle_proof args) = length (coinbase_merkle_proof args)"
    "path_root env (coinbase_tx_id args) 0 (coinbase_merkle_proof args) = merkle_root (block_header (c ! i))"
proof -
  from run obtain header where
    v1: "verify_transaction_inclusion env s (proof_args_from_v2 args) = Inr True" and
    len: "length (merkle_proof args) = length (coinbase_merkle_proof args)" and
    header: "headers_pool s (tx_block_blockhash args) = Some header" and
    root: "compute_root_from_merkle_proof env (coinbase_tx_id args) (0 :: usize) (coinbase_merkle_proof args) =
      merkle_root (block_header header)"
    by (auto simp: verify_transaction_inclusion_v2_def pause_guard_def rbind_Inr req_Inr get_or_Inr)
  from verify_chain_block [OF inv v1] obtain i where i: "i < length c" "block_hash (c ! i) = tx_block_blockhash args"
    by (auto simp: proof_args_from_v2_def)
  then have "headers_pool s (tx_block_blockhash args) = Some (c ! i)" using chain_invD(5) [OF inv] nth_mem by metis
  then show thesis using that [OF i v1 len] header root by (simp add: compute_root_path)
qed

lemma verify_v2_sound:
  assumes cf: "collision_free S g" and inv: "chain_inv S g c s" and small: "length c < 2 ^ 64"
    and run: "verify_transaction_inclusion_v2 env s args = Inr True"
    and txs: "txs \<noteq> []" "coinbase_tx_id args = txs ! 0"
    and root: "\<And>x. x \<in> set c \<Longrightarrow> block_hash x = tx_block_blockhash args \<Longrightarrow>
      merkle_root_calculator env txs = Inr (merkle_root (block_header x))"
    and free: "collision_free_pairs env (path_pairs env (tx_id args) (unat (tx_index args)) (merkle_proof args) @
      path_pairs env (txs ! 0) 0 (coinbase_merkle_proof args) @ tree_pairs env txs)"
    and leaf: "no_inner_node env (txs ! 0) (path_pairs env (txs ! 0) 0 (coinbase_merkle_proof args) @ tree_pairs env txs)"
  shows "\<exists>m < length txs. tx_id args = txs ! m \<and>
    (unat (tx_index args) mod 2 ^ length (merkle_proof args) < length txs \<longrightarrow>
      m = unat (tx_index args) mod 2 ^ length (merkle_proof args))"
proof -
  from verify_v2_Inr [OF inv run] obtain i where
    i: "i < length c" "block_hash (c ! i) = tx_block_blockhash args" and
    v1: "verify_transaction_inclusion env s (proof_args_from_v2 args) = Inr True" and
    len: "length (merkle_proof args) = length (coinbase_merkle_proof args)" and
    coinbase: "path_root env (coinbase_tx_id args) 0 (coinbase_merkle_proof args) = merkle_root (block_header (c ! i))" .
  note r = root [OF nth_mem [OF i(1)] i(2)]
  have "path_root env (tx_id args) (unat (tx_index args)) (merkle_proof args) = merkle_root (block_header (c ! i))"
    using verify_on_chain [OF cf inv small i(1), of "proof_args_from_v2 args" env] i(2) v1
    by (simp add: proof_args_from_v2_def)
  then have path: "merkle_root_calculator env txs = Inr (path_root env (tx_id args) (unat (tx_index args)) (merkle_proof args))"
    using r by simp
  have "length (coinbase_merkle_proof args) = tree_height (length txs)"
    by (rule coinbase_path_length [OF txs(1) _ _ leaf])
       (use r coinbase txs(2) in simp, rule collision_free_mono [OF free], auto)
  then show ?thesis
    using len by (intro path_root_sound [OF txs(1) _ path] collision_free_mono [OF free]) auto
qed

end
