(* ===== verification/Retarget.thy ===== *)
theory Retarget
  imports Inclusion
begin

text \<open>
  What the difficulty rules of the chains share: the walk back over minimum-difficulty blocks that the
  Bitcoin family uses on test networks, the checks on a header's time and version, and the arithmetic of
  scaling a target. The multiplication of a \<open>U256\<close> drops a carry on some operands; it is exact on every
  target that comes from a compact form.
\<close>

section \<open>Shared code\<close>

text \<open>The loop to the last block that was not mined by the minimum-difficulty rule.\<close>

fun skip_min_difficulty :: "('a header_base_scheme \<Rightarrow> 'a ext_header result) \<Rightarrow> u32 \<Rightarrow> u64 \<Rightarrow> nat \<Rightarrow>
    'a ext_header \<Rightarrow> 'a ext_header result" where
  "skip_min_difficulty get_prev limit_bits interval gas current =
     (if bits (block_header current) = limit_bits \<and> block_height current mod interval \<noteq> 0
      then case gas of 0 \<Rightarrow> Inl GasExceeded
        | Suc gas' \<Rightarrow> rbind (get_prev (block_header current)) (skip_min_difficulty get_prev limit_bits interval gas')
      else Inr current)"

declare skip_min_difficulty.simps [simp del]

text \<open>\<open>u32::try_from(env::block_timestamp_ms() / 1000).unwrap()\<close>, and the bound on the header's time.\<close>

definition current_timestamp :: "host \<Rightarrow> u32 result" where
  "current_timestamp env =
     (let t = block_timestamp_ms env div 1000 in if unat t < 2 ^ 32 then Inr (ucast t) else Inl Unwrap)"

definition check_not_too_new :: "host \<Rightarrow> u32 \<Rightarrow> string \<Rightarrow> unit result" where
  "check_not_too_new env header_time msg =
     rbind (current_timestamp env) (\<lambda>now.
     rbind (checked_add now MAX_FUTURE_BLOCK_TIME_LOCAL) (\<lambda>limit.
     req (header_time \<le> limit) msg (Inr ())))"

section \<open>Scaling a target\<close>

text \<open>A compact target has 23 significant bits, so a large one ends in many zeros.\<close>

lemma target_val_dvd:
  assumes "2 ^ (23 + j) \<le> target_val b" "j \<le> 256"
  shows "2 ^ j dvd target_val b"
proof -
  have "(2 :: nat) ^ 23 \<le> 2 ^ (23 + j)" by (rule power_increasing) auto
  with assms(1) have "2 ^ 23 \<le> target_val b" by (rule order_trans [rotated])
  then have big: "\<not> expt b \<le> 3" "\<not> 0x7FFFFF < mant b"
    by (auto simp: target_val_def Let_def split: if_splits)
  define k where "k = 8 * (expt b - 3) mod 256"
  have tv: "target_val b = mant b * 2 ^ k mod B256" using big by (simp add: target_val_def k_def)
  have "2 ^ (23 + j) \<le> mant b * 2 ^ k"
    using assms(1) unfolding tv by (rule order_trans [OF _ mod_less_eq_dividend])
  also have "\<dots> < 2 ^ 23 * 2 ^ k" using big(2) by (intro mult_strict_right_mono) auto
  finally have "(2 :: nat) ^ (23 + j) < 2 ^ (23 + k)" by (simp add: power_add)
  then have "23 + j < 23 + k" by (rule power_less_imp_less_exp [rotated]) simp
  then have "(2 :: nat) ^ j dvd mant b * 2 ^ k" by (intro dvd_mult le_imp_power_dvd) simp
  moreover have "(2 :: nat) ^ j dvd B256" using assms(2) by (intro le_imp_power_dvd)
  ultimately show ?thesis unfolding tv by (rule dvd_mod)
qed

lemma lost_carry_compact:
  assumes "unat m < 2 ^ 32"
  shows "lost_carry (target_from_bits b) m = 0"
proof (cases "2 ^ (23 + 64) \<le> target_val b")
  case True
  then have "2 ^ 64 dvd target_val b" by (rule target_val_dvd) simp
  then show ?thesis by (intro lost_carry_aligned) (simp only: val_target_from_bits)
next
  case False
  then have "target_val b div 2 ^ 64 < 2 ^ 23" by (simp add: less_mult_imp_div_less)
  then have "(target_val b div 2 ^ 64 + 1) * unat m \<le> 2 ^ 23 * 2 ^ 32"
    using assms by (intro mult_le_mono) auto
  then show ?thesis by (intro lost_carry_small) (simp add: val_target_from_bits)
qed

lemma scale_target:
  assumes "lost_carry x m = 0" "val x * unat m < B256"
  shows "\<exists>p. u256_overflowing_mul x m = (p, False) \<and> val p = val x * unat m"
proof -
  obtain p over where p: "u256_overflowing_mul x m = (p, over)" by fastforce
  have "val p = val x * unat m mod B256" "over \<longleftrightarrow> B256 \<le> val x * unat m"
    using val_overflowing_mul_exact [OF assms(1)] unfolding p fst_conv snd_conv by blast+
  then have "val p = val x * unat m" "\<not> over" using assms(2) by (simp_all only: mod_less not_le)
  then show ?thesis using p by auto
qed

lemma u64_of_nat_i64: "0 \<le> x \<Longrightarrow> x < 2 ^ 64 \<Longrightarrow> \<exists>w. u64_try_from_i64 x = Inr w \<and> unat w = nat x"
proof -
  assume x: "0 \<le> x" "x < 2 ^ 64"
  then have "uint (word_of_int x :: u64) = x" by (simp add: uint_word_of_int mod_pos_pos_trivial)
  then have "unat (word_of_int x :: u64) = nat x" by (metis nat_uint_eq)
  then show ?thesis using x(1) by (simp add: u64_try_from_i64_def)
qed

lemma u256_div_by_u64:
  assumes "unat d \<noteq> 0"
  shows "\<exists>q. u256_div x (u256_from (ucast (d :: u64))) = Inr q \<and> val q = val x div unat d"
proof -
  have "val (u256_from (ucast d)) = unat d" by (simp add: u256_simps unat_ucast_u64)
  then show ?thesis using div_rem_correct [of "u256_from (ucast d)" x] assms
    by (auto simp: u256_div_def)
qed

text \<open>A target is multiplied by one time span and divided by another; the result is limited.\<close>

lemma scale_and_divide:
  assumes "lost_carry x m = 0" "val x * unat m < B256" "unat d \<noteq> 0"
  obtains p q where "u256_overflowing_mul x m = (p, False)" "u256_div p (u256_from (ucast (d :: u64))) = Inr q"
    "val q = val x * unat m div unat d"
  using scale_target [OF assms(1,2)] u256_div_by_u64 [OF assms(3)] by metis

lemma val_limit: "val (if q > limit then limit else q) = min (val limit) (val q)"
  by (simp add: val_lt min_def)

section \<open>Submission in the chains that share it\<close>

lemma add_work_Inr: "add_work w b = Inr r \<longleftrightarrow> val r = val w + block_work b"
proof -
  obtain k where k: "work_from_bits b = Inr k" "val k = block_work b" using work_from_bits_total by blast
  obtain sum over where o: "u256_overflowing_add w k = (sum, over)" by fastforce
  have "add_work w b = Inr r \<longleftrightarrow> sum = r \<and> \<not> over" by (auto simp: add_work_def k(1) o req_def)
  also have "\<dots> \<longleftrightarrow> u256_overflowing_add w k = (r, False)" by (auto simp: o)
  finally show ?thesis by (simp only: u256_overflowing_add_eq k(2))
qed

lemma submit_block_header_Inr:
  assumes "submit_block_header hash_of pow_hash_of light check_pow env header skip s = Inr s'"
  obtains p e where "headers_pool s (prev_block_hash (light header)) = Some p"
    "block_header e = light header" "block_hash e = hash_of env header"
    "val (chain_work e) = val (chain_work p) + block_work (bits header)"
    "unat (block_height e) = Suc (unat (block_height p))"
    "\<not> skip \<Longrightarrow> check_pow env s header p = Inr () \<and> pow_ok (pow_hash_of env header) (bits header)"
    "submit_block_header_inner env e p s = Inr s'"
proof -
  from assms obtain p w n where
    p: "headers_pool s (prev_block_hash (light header)) = Some p" and
    w: "add_work (chain_work p) (bits header) = Inr w" and
    n: "checked_add 1 (block_height p) = Inr n" and
    checks: "\<not> skip \<longrightarrow> check_pow env s header p = Inr () \<and> pow_ok (pow_hash_of env header) (bits header)" and
    inner: "submit_block_header_inner env \<lparr>block_header = light header, block_hash = hash_of env header,
      chain_work = w, block_height = n\<rparr> p s = Inr s'"
    by (auto simp: submit_block_header_def get_prev_header_def Let_def rbind_Inr req_Inr get_or_Inr split: if_splits)
  show thesis
    by (rule that [OF p _ _ _ _ _ inner])
       (use w n checks in \<open>auto simp: add_work_Inr checked_add_Inr\<close>)
qed

text \<open>The interface of the contract, for a chain whose submission is the shared one.\<close>

lemma add_work_total: "val w + block_work b < B256 \<Longrightarrow> \<exists>r. add_work w b = Inr r \<and> val r = val w + block_work b"
proof -
  assume small: "val w + block_work b < B256"
  obtain k where k: "work_from_bits b = Inr k" "val k = block_work b" using work_from_bits_total by blast
  then have "\<not> snd (u256_overflowing_add w k)" using small by (simp only: val_overflowing_add(2) k(2) not_le)
  then obtain r where "u256_overflowing_add w k = (r, False)" by (cases "u256_overflowing_add w k") auto
  then have "add_work w b = Inr r" by (simp add: add_work_def k(1))
  then show ?thesis using add_work_Inr by blast
qed

lemma inner_on_tip:
  assumes "block_hash p = mainchain_tip_blockhash s" "parent_of p e"
  shows "submit_block_header_inner env e p s =
    Inr ((store_block_header e s)\<lparr>mainchain_tip_blockhash := block_hash e\<rparr>)"
  using assms by (simp add: submit_block_header_inner_def)

lemma checked_suc: "Suc (unat n) < 2 ^ 64 \<Longrightarrow> \<exists>m. checked_add 1 (n :: u64) = Inr m \<and> unat m = Suc (unat n)"
  by (simp add: checked_add_def unat_word_ariths)

text \<open>What both versions of \<open>submit_block_header\<close> do for a child of the tip when the checks are skipped.\<close>

lemma skip_submission:
  assumes p: "headers_pool s (mainchain_tip_blockhash s) = Some p" "block_hash p = mainchain_tip_blockhash s"
    and "prev_block_hash x = block_hash p" "val (chain_work p) + block_work b < B256" "Suc (unat (block_height p)) < 2 ^ 64"
  shows "\<exists>e. rbind (get_prev_header s x) (\<lambda>p. rbind (add_work (chain_work p) b) (\<lambda>w.
      rbind (checked_add 1 (block_height p)) (\<lambda>n. submit_block_header_inner env
        \<lparr>block_header = x, block_hash = h, chain_work = w, block_height = n\<rparr> p s))) =
      Inr ((store_block_header e s)\<lparr>mainchain_tip_blockhash := block_hash e\<rparr>) \<and>
    block_header e = x \<and> block_hash e = h \<and> val (chain_work e) = val (chain_work p) + block_work b \<and>
    unat (block_height e) = Suc (unat (block_height p))"
proof -
  obtain w where w: "add_work (chain_work p) b = Inr w" "val w = val (chain_work p) + block_work b"
    using add_work_total assms(4) by blast
  obtain n where n: "checked_add 1 (block_height p) = Inr n" "unat n = Suc (unat (block_height p))"
    using checked_suc assms(5) by blast
  let ?e = "\<lparr>block_header = x, block_hash = h, chain_work = w, block_height = n\<rparr>"
  have "get_prev_header s x = Inr p" using p assms(3) by (simp add: get_prev_header_def)
  then show ?thesis using inner_on_tip [OF p(2), of ?e env] assms(3) w n by (intro exI [of _ ?e]) simp
qed

lemma submissionI:
  fixes C :: "('h, 'a, 'h header_base_scheme) chain"
  assumes "submit_header C = submit_block_header (header_hash C) pow_hash_of (into_light C) check_pow"
    and bits: "\<And>h. bits (into_light C h) = bits h" and "\<And>h. genesis_submission C h = h"
  shows "submission C (\<lambda>h. h)"
proof
  fix env b skip s s'
  assume "submit_header C env b skip s = Inr s'"
  then show "\<exists>p e. headers_pool s (prev_block_hash (into_light C b)) = Some p \<and>
      block_header e = into_light C b \<and> block_hash e = header_hash C env b \<and>
      val (chain_work e) = val (chain_work p) + block_work (bits b) \<and>
      unat (block_height e) = Suc (unat (block_height p)) \<and> submit_block_header_inner env e p s = Inr s'"
    unfolding assms(1) by (elim submit_block_header_Inr) blast
next
  fix s :: "'a client" and p b env
  assume p: "headers_pool s (mainchain_tip_blockhash s) = Some p" "block_hash p = mainchain_tip_blockhash s"
    "prev_block_hash (into_light C b) = block_hash p" "val (chain_work p) + block_work (bits b) < B256"
    "Suc (unat (block_height p)) < 2 ^ 64"
  from skip_submission [OF p, of env "header_hash C env b"]
  show "\<exists>e. submit_header C env b True s = Inr ((store_block_header e s)\<lparr>mainchain_tip_blockhash := block_hash e\<rparr>) \<and>
      block_header e = into_light C b \<and> block_hash e = header_hash C env b \<and>
      val (chain_work e) = val (chain_work p) + block_work (bits b) \<and>
      unat (block_height e) = Suc (unat (block_height p))"
    unfolding assms(1) submit_block_header_def Let_def by simp
qed (simp_all add: assms)

section \<open>Times of recent blocks\<close>

lemma collect_times_length: "collect_times get_prev n h = Inr (ts, l) \<Longrightarrow> length ts = n"
  by (induction n arbitrary: h ts l) (auto simp: result_simps split: prod.splits)

text \<open>The median: at least half of the collected times are not above it, and at least half not below.\<close>

lemma sorted_nth_count:
  fixes xs :: "'x::linorder list"
  assumes "sorted xs" "k < length xs"
  shows "Suc k \<le> length (filter (\<lambda>x. x \<le> xs ! k) xs)" "length xs - k \<le> length (filter (\<lambda>x. xs ! k \<le> x) xs)"
proof -
  have "filter (\<lambda>x. x \<le> xs ! k) (take (Suc k) xs) = take (Suc k) xs"
    using assms by (intro filter_True) (auto simp: in_set_conv_nth sorted_nth_mono less_Suc_eq_le)
  then have "Suc k \<le> length (filter (\<lambda>x. x \<le> xs ! k) (take (Suc k) xs))" using assms(2) by simp
  also have "\<dots> \<le> length (filter (\<lambda>x. x \<le> xs ! k) (take (Suc k) xs @ drop (Suc k) xs))" by (simp only: filter_append length_append le_add1)
  finally show "Suc k \<le> length (filter (\<lambda>x. x \<le> xs ! k) xs)" by simp
  have "filter (\<lambda>x. xs ! k \<le> x) (drop k xs) = drop k xs"
    using assms by (intro filter_True) (auto simp: in_set_conv_nth sorted_nth_mono)
  then have "length xs - k \<le> length (filter (\<lambda>x. xs ! k \<le> x) (drop k xs))" by simp
  also have "\<dots> \<le> length (filter (\<lambda>x. xs ! k \<le> x) (take k xs @ drop k xs))" by (simp only: filter_append length_append le_add2)
  finally show "length xs - k \<le> length (filter (\<lambda>x. xs ! k \<le> x) xs)" by simp
qed

lemma length_filter_sort: "length (filter P (sort xs)) = length (filter P xs)"
  by (simp add: filter_sort)

lemma median_of_counts:
  assumes "length ts = 2 * m + 1"
  shows "m + 1 \<le> length (filter (\<lambda>t. t \<le> median_of ts) ts)" "m + 1 \<le> length (filter (\<lambda>t. median_of ts \<le> t) ts)"
    and "median_of ts \<in> set ts"
proof -
  have k: "length ts div 2 < length (sort ts)" "length ts div 2 = m" using assms by auto
  note c = sorted_nth_count [OF sorted_sort k(1), folded median_of_def]
  show "m + 1 \<le> length (filter (\<lambda>t. t \<le> median_of ts) ts)" "m + 1 \<le> length (filter (\<lambda>t. median_of ts \<le> t) ts)"
    using c k(2) assms by (simp_all add: length_filter_sort)
  show "median_of ts \<in> set ts" using nth_mem [OF k(1)] by (simp add: median_of_def)
qed

section \<open>The interface of the block lookups\<close>

text \<open>
  The consensus rules look up blocks through the trait \<open>BlocksGetter\<close>. They rely on this: for a getter
  whose main chain is \<open>c\<close>, the previous block of a block of \<open>c\<close> is the one before it, heights are
  consecutive, and a height leads to its block.
\<close>

locale block_lookup =
  fixes get_prev :: "'s \<Rightarrow> 'a header_base_scheme \<Rightarrow> 'a ext_header result"
    and get_by_height :: "'s \<Rightarrow> u64 \<Rightarrow> 'a ext_header result"
    and main_chain :: "'s \<Rightarrow> 'a ext_header list \<Rightarrow> bool"
  assumes prev_on_chain: "main_chain s c \<Longrightarrow> Suc i < length c \<Longrightarrow> get_prev s (block_header (c ! Suc i)) = Inr (c ! i)"
    and consecutive: "main_chain s c \<Longrightarrow> i < length c \<Longrightarrow>
      unat (block_height (c ! i)) = unat (block_height (hd c)) + i"
    and by_height_on_chain: "main_chain s c \<Longrightarrow> i < length c \<Longrightarrow>
      unat n = unat (block_height (hd c)) + i \<Longrightarrow> get_by_height s n = Inr (c ! i)"
begin

lemma collect_times_chain:
  assumes "main_chain s c" "n \<le> i" "i < length c"
  shows "collect_times (get_prev s) n (c ! i) =
    Inr (map (\<lambda>k. time (block_header (c ! (i - k)))) [0 ..< n], c ! (i - n))"
  using assms(2,3)
proof (induction n arbitrary: i)
  case (Suc n)
  then obtain j where j: "i = Suc j" "n \<le> j" "j < length c" by (cases i) auto
  have split: "[0 ..< Suc n] = 0 # map Suc [0 ..< n]" by (simp add: map_Suc_upt upt_conv_Cons)
  show ?case using Suc.IH [OF j(2,3)] prev_on_chain [OF assms(1), of j] Suc.prems(2)
    unfolding split by (simp add: j(1) o_def)
qed simp

lemma median_time_chain:
  assumes "main_chain s c" "11 \<le> i" "i < length c"
  shows "get_median_time_past (c ! i) (get_prev s) =
    Inr (median_of (map (\<lambda>k. time (block_header (c ! (i - k)))) [0 ..< 11]))"
  unfolding get_median_time_past_def MEDIAN_TIME_SPAN_def collect_times_chain [OF assms] by simp

text \<open>
  The walk over minimum-difficulty blocks ends within the adjustment interval, one unit of gas per block.
\<close>

lemma skip_min_difficulty_chain:
  assumes "main_chain s c" "i < length c" "unat (block_height (c ! i)) mod unat interval \<le> i"
    and "unat (block_height (c ! i)) mod unat interval \<le> gas"
  shows "\<exists>j \<le> i. skip_min_difficulty (get_prev s) limit interval gas (c ! i) = Inr (c ! j) \<and>
    (\<forall>k. j < k \<and> k \<le> i \<longrightarrow> bits (block_header (c ! k)) = limit) \<and>
    (bits (block_header (c ! j)) = limit \<longrightarrow> unat (block_height (c ! j)) mod unat interval = 0)"
  using assms(2-4)
proof (induction i arbitrary: gas)
  case 0
  then have "block_height (c ! 0) mod interval = 0" by (simp add: word_unat_eq_iff unat_mod_distrib)
  then show ?case by (subst skip_min_difficulty.simps) (simp add: word_unat_eq_iff unat_mod_distrib)
next
  case (Suc i)
  let ?h = "unat (block_height (c ! Suc i))" and ?m = "unat interval"
  show ?case
  proof (cases "bits (block_header (c ! Suc i)) = limit \<and> ?h mod ?m \<noteq> 0")
    case False
    then have "skip_min_difficulty (get_prev s) limit interval gas (c ! Suc i) = Inr (c ! Suc i)"
      by (subst skip_min_difficulty.simps) (auto simp: word_unat_eq_iff unat_mod_distrib)
    then show ?thesis using False by (intro exI [of _ "Suc i"]) auto
  next
    case True
    have "?h = Suc (unat (block_height (c ! i)))"
      using consecutive [OF assms(1), of "Suc i"] consecutive [OF assms(1), of i] Suc.prems(1) by simp
    then have mod: "?h mod ?m = Suc (unat (block_height (c ! i)) mod ?m)"
      using True by (metis mod_Suc)
    then obtain gas' where gas: "gas = Suc gas'" using Suc.prems(3) by (cases gas) auto
    have "skip_min_difficulty (get_prev s) limit interval gas (c ! Suc i) =
        skip_min_difficulty (get_prev s) limit interval gas' (c ! i)"
      using True prev_on_chain [OF assms(1), of i] Suc.prems(1)
      by (subst skip_min_difficulty.simps) (simp add: gas word_unat_eq_iff unat_mod_distrib)
    moreover obtain j where "j \<le> i" "skip_min_difficulty (get_prev s) limit interval gas' (c ! i) = Inr (c ! j)"
      "\<forall>k. j < k \<and> k \<le> i \<longrightarrow> bits (block_header (c ! k)) = limit"
      "bits (block_header (c ! j)) = limit \<longrightarrow> unat (block_height (c ! j)) mod ?m = 0"
      using Suc.IH [of gas'] Suc.prems mod gas by auto
    ultimately show ?thesis using True by (intro exI [of _ j]) (auto simp: le_Suc_eq)
  qed
qed

end

definition has_main_chain :: "'a client \<Rightarrow> 'a ext_header list \<Rightarrow> bool" where
  "has_main_chain s c \<longleftrightarrow> (\<exists>S g. collision_free S g \<and> chain_inv S g c s)"

interpretation client_getter: block_lookup get_prev_header get_header_by_height has_main_chain
proof
  fix s :: "'a client" and c and i :: nat
  assume "has_main_chain s c"
  then obtain S g where cf: "collision_free S g" and inv: "chain_inv S g c s" by (auto simp: has_main_chain_def)
  note D = chain_invD [OF inv]
  show "get_prev_header s (block_header (c ! Suc i)) = Inr (c ! i)" if i: "Suc i < length c"
  proof -
    have "c = take (Suc i) c @ drop (Suc i) c" by simp
    then have "parent_of (last (take (Suc i) c)) (hd (drop (Suc i) c))"
      using D(2) linked_append [of "take (Suc i) c" "drop (Suc i) c"] i by auto
    then have "parent_of (c ! i) (c ! Suc i)"
      using i by (simp add: hd_drop_conv_nth take_Suc_conv_app_nth)
    then show ?thesis using D(5) [of "c ! i"] i by (simp add: get_prev_header_def)
  qed
  show "unat (block_height (c ! i)) = unat (block_height (hd c)) + i" if "i < length c"
    using linked_height_nth [OF cf D(2) _ that] D(6) by simp
  show "get_header_by_height s n = Inr (c ! i)" if "i < length c" "unat n = unat (block_height (hd c)) + i" for n
    using hash_at_height(2) [OF cf inv that] .
qed

section \<open>Clamped durations and the bound on a header's time\<close>

definition clamp :: "int \<Rightarrow> int \<Rightarrow> int \<Rightarrow> int" where
  "clamp low high x = (if high < (if x < low then low else x) then high else if x < low then low else x)"

lemma clamp_bounds: "low \<le> high \<Longrightarrow> low \<le> clamp low high x \<and> clamp low high x \<le> high"
  by (simp add: clamp_def)

lemma i64_from_u32_bounds: "0 \<le> i64_from_u32 w" "i64_from_u32 w < 2 ^ 32"
proof -
  have "int (unat w) < int (2 ^ 32)" using unat_lt_exp [of w] by (simp only: of_nat_less_iff) simp
  then show "0 \<le> i64_from_u32 w" "i64_from_u32 w < 2 ^ 32" by (simp_all add: i64_from_u32_def)
qed

lemma check_not_too_new_Inr:
  "check_not_too_new env t msg = Inr () \<longleftrightarrow>
     unat (block_timestamp_ms env) div 1000 + 7200 < 2 ^ 32 \<and> unat t \<le> unat (block_timestamp_ms env) div 1000 + 7200"
proof -
  have d: "unat (block_timestamp_ms env div 1000) = unat (block_timestamp_ms env) div 1000"
    by (simp add: unat_div_distrib)
  have u: "unat (ucast w :: u32) = unat w" if "unat w < 2 ^ 32" for w :: u64
    using that by (simp add: unsigned_ucast_eq take_bit_nat_eq_self)
  show ?thesis
  proof (cases "unat (block_timestamp_ms env) div 1000 < 2 ^ 32")
    case True
    then have now: "current_timestamp env = Inr (ucast (block_timestamp_ms env div 1000))"
      "unat (ucast (block_timestamp_ms env div 1000) :: u32) = unat (block_timestamp_ms env) div 1000"
      using u [of "block_timestamp_ms env div 1000"] by (simp_all add: current_timestamp_def d Let_def)
    let ?x = "unat (block_timestamp_ms env) div 1000 + 7200"
    have "check_not_too_new env t msg = Inr () \<longleftrightarrow> (\<exists>l :: u32. unat l = ?x \<and> t \<le> l)"
      by (simp add: check_not_too_new_def now(1) rbind_Inr req_Inr checked_add_Inr now(2) MAX_FUTURE_BLOCK_TIME_LOCAL_def)
    also have "\<dots> \<longleftrightarrow> (\<exists>l :: u32. unat l = ?x \<and> unat t \<le> ?x)" by (auto simp: word_le_nat_alt)
    also have "\<dots> \<longleftrightarrow> ?x < 2 ^ 32 \<and> unat t \<le> ?x"
    proof
      assume "\<exists>l :: u32. unat l = ?x \<and> unat t \<le> ?x"
      then obtain l :: u32 where l: "unat l = ?x" "unat t \<le> ?x" by blast
      have "unat l < 2 ^ 32" using unat_lt_exp [of l] by simp
      with l show "?x < 2 ^ 32 \<and> unat t \<le> ?x" by linarith
    next
      assume "?x < 2 ^ 32 \<and> unat t \<le> ?x"
      then show "\<exists>l :: u32. unat l = ?x \<and> unat t \<le> ?x"
        using unat_of_nat_small [of ?x, where 'a = 32] by (intro exI [of _ "word_of_nat ?x"] conjI) auto
    qed
    finally show ?thesis .
  next
    case False
    then show ?thesis by (simp add: check_not_too_new_def current_timestamp_def d Let_def)
  qed
qed

section \<open>Blocks behind a block of the main chain\<close>

lemma checked_next: "unat n + 1 < 2 ^ 64 \<Longrightarrow> \<exists>m. checked_add n (1 :: u64) = Inr m \<and> unat m = unat n + 1"
  by (auto simp: checked_add_def unat_word_ariths)

lemma checked_next_mod:
  fixes n :: u64
  assumes "unat n + 1 < 2 ^ 64"
  obtains m where "checked_add n 1 = Inr m" "unat m = unat n + 1" "m mod k = 0 \<longleftrightarrow> (unat n + 1) mod unat k = 0"
proof -
  from checked_next [OF assms] obtain m where m: "checked_add n 1 = Inr m" "unat m = unat n + 1" by blast
  have "m mod k = 0 \<longleftrightarrow> unat m mod unat k = 0" by (simp add: word_unat_eq_iff [of "m mod k"] unat_mod_distrib)
  then show thesis using that m by simp
qed

lemma late_time: "unat t + unat d < 2 ^ 32 \<Longrightarrow> \<exists>m. checked_add t (d :: u32) = Inr m \<and> unat m = unat t + unat d"
  by (auto simp: checked_add_def unat_word_ariths)

context block_lookup
begin

lemma block_back:
  assumes "main_chain s c" "i < length c" "unat k \<le> i"
  obtains n where "checked_sub (block_height (c ! i)) k = Inr n" "get_by_height s n = Inr (c ! (i - unat k))"
proof -
  let ?h = "block_height (c ! i)"
  have h: "unat ?h = unat (block_height (hd c)) + i" using consecutive [OF assms(1,2)] .
  then have k: "k \<le> ?h" using assms(3) by (simp add: word_le_nat_alt)
  show thesis
  proof (rule that)
    show "checked_sub ?h k = Inr (?h - k)" using k by (simp add: checked_sub_def)
    show "get_by_height s (?h - k) = Inr (c ! (i - unat k))"
      using assms h k by (intro by_height_on_chain [OF assms(1)]) (simp_all add: unat_sub)
  qed
qed

end

text \<open>The median time past of a block of the main chain.\<close>

definition median_at :: "'a ext_header list \<Rightarrow> nat \<Rightarrow> u32" where
  "median_at c i = median_of (map (\<lambda>k. time (block_header (c ! (i - k)))) [0 ..< 11])"

lemma median_at_chain:
  "has_main_chain s c \<Longrightarrow> 11 \<le> i \<Longrightarrow> i < length c \<Longrightarrow> get_median_time_past (c ! i) (get_prev_header s) = Inr (median_at c i)"
  unfolding median_at_def by (rule client_getter.median_time_chain)

end
