(* ===== verification/Bitcoin.thy ===== *)
theory Bitcoin
  imports Retarget
begin

text \<open>
  The Bitcoin build of the contract: \<^verbatim>\<open>contract/src/bitcoin.rs\<close>. Its consensus checks, the exact result
  of a difficulty adjustment, what an accepted header satisfies, and the interpretation of the
  contract's interface \<open>submission\<close>.
\<close>

type_synonym btc_client = "unit btc_header_ext client"
type_synonym btc_ext_header = "unit btc_header_ext ext_header"

section \<open>Consensus rules\<close>

definition btc_get_config :: "btc_client \<Rightarrow> network_config" where
  "btc_get_config s = get_bitcoin_config (network s)"

definition btc_get_network :: "btc_client \<Rightarrow> string \<times> network" where
  "btc_get_network s = (''Bitcoin'', network s)"

definition btc_calculate_next_work_required :: "network_config \<Rightarrow> btc_ext_header \<Rightarrow> i64 \<Rightarrow> u32 result" where
  "btc_calculate_next_work_required config prev_block_header first_block_time =
     (let prev_block_time = i64_from_u32 (time (block_header prev_block_header)) in
      rbind (i64_of (prev_block_time - first_block_time)) (\<lambda>actual_time_taken.
      let actual1 = (if actual_time_taken < pow_target_timespan config sdiv 4
                     then pow_target_timespan config sdiv 4 else actual_time_taken) in
      rbind (i64_of (pow_target_timespan config * 4)) (\<lambda>max_timespan.
      let actual2 = (if actual1 > max_timespan then max_timespan else actual1);
          old_target = target_from_bits (bits (block_header prev_block_header)) in
      rbind (u64_try_from_i64 actual2) (\<lambda>factor.
      let (new_target, new_target_overflow) = u256_overflowing_mul old_target factor in
      req (\<not> new_target_overflow) ''new target overflow''
      (rbind (u64_try_from_i64 (pow_target_timespan config)) (\<lambda>timespan.
       rbind (u256_div new_target (u256_from (ucast timespan))) (\<lambda>quotient.
       target_to_bits (if quotient > pow_limit config then pow_limit config else quotient))))))))"

definition btc_get_next_work_required :: "nat \<Rightarrow> network_config \<Rightarrow> btc_header \<Rightarrow> btc_ext_header \<Rightarrow>
    btc_client \<Rightarrow> u32 result" where
  "btc_get_next_work_required gas config header prev_block_header blocks_getter =
     rbind (checked_add (block_height prev_block_header) 1) (\<lambda>next_height.
     if next_height mod difficulty_adjustment_interval config \<noteq> 0 then
       if pow_allow_min_difficulty_blocks config then
         rbind (checked_mul 2 (pow_target_spacing config)) (\<lambda>spacing2.
         rbind (checked_add (time (block_header prev_block_header)) spacing2) (\<lambda>late.
         if time header > late then Inr (proof_of_work_limit_bits config)
         else rbind (skip_min_difficulty (get_prev_header blocks_getter) (proof_of_work_limit_bits config)
                (difficulty_adjustment_interval config) gas prev_block_header) (\<lambda>current_block_header.
              Inr (bits (block_header current_block_header)))))
       else Inr (bits (block_header prev_block_header))
     else
       rbind (checked_sub (difficulty_adjustment_interval config) 1) (\<lambda>back.
       rbind (checked_sub (block_height prev_block_header) back) (\<lambda>first_block_height.
       rbind (get_header_by_height blocks_getter first_block_height) (\<lambda>interval_tail_extend_header.
       btc_calculate_next_work_required config prev_block_header
         (i64_from_u32 (time (block_header interval_tail_extend_header)))))))"

definition btc_check_pow :: "host \<Rightarrow> btc_client \<Rightarrow> btc_header \<Rightarrow> btc_ext_header \<Rightarrow> unit result" where
  "btc_check_pow env s header prev_block_header =
     (let config = btc_get_config s in
      rbind (btc_get_next_work_required (loop_gas env) config header prev_block_header s) (\<lambda>expected_bits.
      req (expected_bits = bits header) ''bad-diffbits: incorrect proof of work''
      (rbind (get_median_time_past prev_block_header (get_prev_header s)) (\<lambda>median.
       req (time header > median) ''time-too-old: block's timestamp is too early''
       (rbind (check_not_too_new env (time header) ''time-too-new: block timestamp too far in the future'') (\<lambda>_.
        req (sint (version header) \<ge> 4) ''bad-version: block version must be at least 4'' (Inr ())))))))"

definition btc_genesis_check :: "network \<Rightarrow> u64 \<Rightarrow> nat \<Rightarrow> unit result" where
  "btc_genesis_check n height blocks =
     req (height mod difficulty_adjustment_interval (get_bitcoin_config n) = 0)
       ''Error: The initial block height must be divisible by the difficulty adjustment interval''
     (req (blocks > MEDIAN_TIME_SPAN) ''At least 12 initial blocks must be submitted to support MTP computation''
      (Inr ()))"

definition btc_submit_block_header :: "host \<Rightarrow> btc_header \<Rightarrow> bool \<Rightarrow> btc_client \<Rightarrow> btc_client result" where
  "btc_submit_block_header =
     submit_block_header btc_block_hash btc_block_hash_pow btc_into_light btc_check_pow"

definition bitcoin :: "(unit btc_header_ext, unit btc_header_ext, btc_header) chain" where
  "bitcoin = \<lparr>header_hash = btc_block_hash, into_light = btc_into_light,
     genesis_check = btc_genesis_check, genesis_submission = (\<lambda>h. h),
     submit_header = btc_submit_block_header\<rparr>"

section \<open>Difficulty adjustment\<close>

lemma btc_config [simp]:
  "pow_target_timespan (get_bitcoin_config n) = 1209600"
  "difficulty_adjustment_interval (get_bitcoin_config n) = 2016"
  "proof_of_work_limit_bits (get_bitcoin_config n) = 0x1d00ffff"
  "pow_target_spacing (get_bitcoin_config n) = 600"
  "pow_allow_min_difficulty_blocks (get_bitcoin_config n) \<longleftrightarrow> n = Testnet"
  by (cases n; simp)+

text \<open>
  The new target is the old one scaled by the clamped duration of the interval, rounded down and limited;
  it is then put into compact form. Nothing in the computation can overflow or panic.
\<close>

lemma btc_retarget:
  fixes prev :: btc_ext_header and first :: u32
  defines "span \<equiv> clamp 302400 4838400 (i64_from_u32 (time (block_header prev)) - i64_from_u32 first)"
  assumes "target_val (bits (block_header prev)) \<le> val (pow_limit (get_bitcoin_config n))"
  shows "\<exists>x. btc_calculate_next_work_required (get_bitcoin_config n) prev (i64_from_u32 first) = target_to_bits x \<and>
    val x = min (val (pow_limit (get_bitcoin_config n))) (target_val (bits (block_header prev)) * nat span div 1209600)"
proof -
  let ?t = "target_from_bits (bits (block_header prev))"
  let ?d = "i64_from_u32 (time (block_header prev)) - i64_from_u32 first"
  have d: "i64_of ?d = Inr ?d" using i64_from_u32_bounds [of "time (block_header prev)"] i64_from_u32_bounds [of first]
    by (simp add: i64_of_def)
  have quarter: "(1209600 :: int) sdiv 4 = 302400" by (simp add: signed_divide_int_def)
  have cl: "(if 4838400 < (if ?d < 302400 then 302400 else ?d) then 4838400 else if ?d < 302400 then 302400 else ?d) = span"
    by (simp only: span_def clamp_def)
  have span: "302400 \<le> span" "span \<le> 4838400" using clamp_bounds [of 302400 4838400] by (simp_all add: span_def)
  obtain m where m: "u64_try_from_i64 span = Inr m" "unat m = nat span" using u64_of_nat_i64 [of span] span by auto
  obtain k where k: "u64_try_from_i64 1209600 = Inr k" "unat k = 1209600" using u64_of_nat_i64 [of 1209600] by auto
  have carry: "lost_carry ?t m = 0" by (rule lost_carry_compact) (use m(2) span in simp)
  have "val ?t \<le> 2 ^ 224" using assms(2) val_limits(1) [of n] by (simp add: val_target_from_bits)
  moreover have "unat m \<le> 2 ^ 23" using m(2) span by simp
  ultimately have "val ?t * unat m \<le> 2 ^ 224 * 2 ^ 23" by (rule mult_le_mono)
  then have small: "val ?t * unat m < B256" by simp
  from k(2) have "unat k \<noteq> 0" by simp
  from scale_and_divide [OF carry small this] obtain p q where
    pq: "u256_overflowing_mul ?t m = (p, False)" "u256_div p (u256_from (ucast k)) = Inr q"
      "val q = val ?t * unat m div unat k" .
  have "i64_of 4838400 = Inr 4838400" by (simp add: i64_of_def)
  then have "btc_calculate_next_work_required (get_bitcoin_config n) prev (i64_from_u32 first) =
      target_to_bits (if q > pow_limit (get_bitcoin_config n) then pow_limit (get_bitcoin_config n) else q)"
    unfolding btc_calculate_next_work_required_def Let_def d btc_config quarter
    by (simp add: cl m(1) k(1) pq(1,2) split del: if_split)
  moreover have "val q = target_val (bits (block_header prev)) * nat span div 1209600"
    using pq(3) by (simp add: m(2) k(2) val_target_from_bits)
  ultimately show ?thesis
    by (intro exI [of _ "if q > pow_limit (get_bitcoin_config n) then pow_limit (get_bitcoin_config n) else q"])
       (simp only: val_limit)
qed




interpretation btc: submission bitcoin "\<lambda>h. h"
  by (rule submissionI) (simp_all add: bitcoin_def btc_submit_block_header_def btc_into_light_def)

section \<open>Accepted headers\<close>

text \<open>A header is stored only if it meets every consensus rule the contract knows.\<close>

lemma btc_accepted:
  assumes "btc_submit_block_header env header False s = Inr s'"
  obtains p where "headers_pool s (prev_block_hash header) = Some p"
    "btc_get_next_work_required (loop_gas env) (btc_get_config s) header p s = Inr (bits header)"
    "\<exists>median. get_median_time_past p (get_prev_header s) = Inr median \<and> median < time header"
    "unat (time header) \<le> unat (block_timestamp_ms env) div 1000 + 7200"
    "sint (version header) \<ge> 4"
    "pow_ok (btc_block_hash_pow env header) (bits header)"
  using assms unfolding btc_submit_block_header_def
proof (rule submit_block_header_Inr)
  fix p e
  assume p: "headers_pool s (prev_block_hash (btc_into_light header)) = Some p"
    and "\<not> False \<Longrightarrow> btc_check_pow env s header p = Inr () \<and> pow_ok (btc_block_hash_pow env header) (bits header)"
  then have check: "btc_check_pow env s header p = Inr ()" and pow: "pow_ok (btc_block_hash_pow env header) (bits header)"
    by auto
  from check show thesis
    by (intro that [of p])
       (use p pow in \<open>auto simp: btc_check_pow_def Let_def rbind_Inr req_Inr check_not_too_new_Inr btc_into_light_def\<close>)
qed

section \<open>The required difficulty on the main chain\<close>

text \<open>At the end of an interval the difficulty is adjusted to the time since its first block.\<close>

lemma btc_next_work_adjust:
  assumes main: "has_main_chain s c" and i: "2015 \<le> i" "i < length c"
    and boundary: "(unat (block_height (c ! i)) + 1) mod 2016 = 0"
    and limit: "target_val (bits (block_header (c ! i))) \<le> val (pow_limit (get_bitcoin_config n))"
  shows "\<exists>x. btc_get_next_work_required gas (get_bitcoin_config n) header (c ! i) s = target_to_bits x \<and>
    val x = min (val (pow_limit (get_bitcoin_config n)))
      (target_val (bits (block_header (c ! i))) * nat (clamp 302400 4838400
        (i64_from_u32 (time (block_header (c ! i))) - i64_from_u32 (time (block_header (c ! (i - 2015)))))) div 1209600)"
proof -
  have "unat (block_height (c ! i)) + 1 \<noteq> 2 ^ 64" using boundary by auto
  then have "unat (block_height (c ! i)) + 1 < 2 ^ 64" using unat_lt_exp [of "block_height (c ! i)"] by simp
  then obtain m where "checked_add (block_height (c ! i)) 1 = Inr m"
    "m mod 2016 = 0 \<longleftrightarrow> (unat (block_height (c ! i)) + 1) mod unat (2016 :: u64) = 0" by (rule checked_next_mod)
  with boundary have m: "checked_add (block_height (c ! i)) 1 = Inr m" "m mod 2016 = 0" by simp_all
  obtain k where k: "checked_sub (block_height (c ! i)) 2015 = Inr k" "get_header_by_height s k = Inr (c ! (i - 2015))"
    using client_getter.block_back [OF main i(2), of 2015] i(1) by auto
  have "btc_get_next_work_required gas (get_bitcoin_config n) header (c ! i) s =
      btc_calculate_next_work_required (get_bitcoin_config n) (c ! i) (i64_from_u32 (time (block_header (c ! (i - 2015)))))"
    unfolding btc_get_next_work_required_def by (simp add: m k checked_sub_def [of 2016])
  then show ?thesis using btc_retarget [OF limit] by simp
qed

text \<open>
  Between adjustments the main network keeps the difficulty. The test network allows the minimum
  difficulty after twenty minutes, and otherwise goes back to the last block that did not use that.
\<close>

lemma btc_next_work_mainnet:
  assumes "unat (block_height prev) + 1 < 2 ^ 64" "(unat (block_height prev) + 1) mod 2016 \<noteq> 0"
  shows "btc_get_next_work_required gas (get_bitcoin_config Mainnet) header prev s = Inr (bits (block_header prev))"
proof -
  obtain m where "checked_add (block_height prev) 1 = Inr m"
    "m mod 2016 = 0 \<longleftrightarrow> (unat (block_height prev) + 1) mod unat (2016 :: u64) = 0" by (rule checked_next_mod [OF assms(1)])
  with assms(2) show ?thesis by (simp add: btc_get_next_work_required_def del: get_bitcoin_config.simps)
qed

lemma btc_next_work_testnet:
  assumes main: "has_main_chain s c" and i: "i < length c" "unat (block_height (c ! i)) mod 2016 \<le> i"
    and inside: "unat (block_height (c ! i)) + 1 < 2 ^ 64" "(unat (block_height (c ! i)) + 1) mod 2016 \<noteq> 0"
    and time: "unat (time (block_header (c ! i))) + 1200 < 2 ^ 32" and gas: "2015 \<le> gas"
  shows "\<exists>j \<le> i. btc_get_next_work_required gas (get_bitcoin_config Testnet) header (c ! i) s =
      Inr (if unat (time (block_header (c ! i))) + 1200 < unat (time header) then 0x1d00ffff else bits (block_header (c ! j))) \<and>
    (\<forall>k. j < k \<and> k \<le> i \<longrightarrow> bits (block_header (c ! k)) = 0x1d00ffff) \<and>
    (bits (block_header (c ! j)) = 0x1d00ffff \<longrightarrow> unat (block_height (c ! j)) mod 2016 = 0)"
proof -
  let ?h = "block_height (c ! i)" and ?t = "time (block_header (c ! i))"
  obtain m where "checked_add ?h 1 = Inr m" "m mod 2016 = 0 \<longleftrightarrow> (unat ?h + 1) mod unat (2016 :: u64) = 0"
    by (rule checked_next_mod [OF inside(1)])
  with inside(2) have m: "checked_add ?h 1 = Inr m" "m mod 2016 \<noteq> 0" by simp_all
  have spacing: "checked_mul 2 (600 :: u32) = Inr 1200" by (simp add: checked_mul_def)
  obtain late where late: "checked_add ?t 1200 = Inr late" "unat late = unat ?t + 1200"
    using late_time [of ?t 1200] time by auto
  have late_iff: "late < time header \<longleftrightarrow> unat ?t + 1200 < unat (time header)" by (simp add: word_less_nat_alt late(2))
  have "unat ?h mod 2016 < 2016" by simp
  then have "unat ?h mod unat (2016 :: u64) \<le> gas" using gas by simp
  then obtain j where j: "j \<le> i" "skip_min_difficulty (get_prev_header s) 0x1d00ffff 2016 gas (c ! i) = Inr (c ! j)"
    "\<forall>k. j < k \<and> k \<le> i \<longrightarrow> bits (block_header (c ! k)) = 0x1d00ffff"
    "bits (block_header (c ! j)) = 0x1d00ffff \<longrightarrow> unat (block_height (c ! j)) mod 2016 = 0"
    using client_getter.skip_min_difficulty_chain [OF main i(1), of 2016 gas "0x1d00ffff"] i(2) by auto
  have run: "btc_get_next_work_required gas (get_bitcoin_config Testnet) header (c ! i) s =
      (if unat ?t + 1200 < unat (time header) then Inr 0x1d00ffff else Inr (bits (block_header (c ! j))))"
    unfolding btc_get_next_work_required_def m(1) rbind_simps btc_config spacing late(1) j(2) late_iff
    by (simp only: m(2) simp_thms if_True)
  show ?thesis by (rule exI [of _ j]) (use j run in \<open>simp only: simp_thms if_distrib [of Inr]\<close>)
qed

section \<open>Extending the tip\<close>

text \<open>A header on the tip is stored exactly if it meets every rule.\<close>

lemma btc_extend_tip:
  assumes main: "has_main_chain s c" and c: "11 < length c" and parent: "prev_block_hash header = block_hash (last c)"
    and work: "val (chain_work (last c)) + block_work (bits header) < B256" and height: "unat (block_height (last c)) + 1 < 2 ^ 64"
  shows "(\<exists>s'. btc_submit_block_header env header False s = Inr s') \<longleftrightarrow>
    btc_get_next_work_required (loop_gas env) (btc_get_config s) header (last c) s = Inr (bits header) \<and>
    median_at c (length c - 1) < time header \<and>
    unat (block_timestamp_ms env) div 1000 + 7200 < 2 ^ 32 \<and>
    unat (time header) \<le> unat (block_timestamp_ms env) div 1000 + 7200 \<and> sint (version header) \<ge> 4 \<and>
    val (u256_from_le_bytes (h256_bytes (btc_block_hash_pow env header))) \<le> target_val (bits header)"
proof -
  obtain S g where inv: "chain_inv S g c s" using main by (auto simp: has_main_chain_def)
  note D = chain_invD [OF inv]
  have p: "get_prev_header s header = Inr (last c)"
    using D(9,7) parent by (simp add: get_prev_header_def)
  obtain w where w: "add_work (chain_work (last c)) (bits header) = Inr w" using add_work_total [OF work] by blast
  obtain n where n: "checked_add 1 (block_height (last c)) = Inr n" using checked_suc [of "block_height (last c)"] height by auto
  have last: "last c = c ! (length c - 1)" using D(1) by (rule last_conv_nth)
  have "get_median_time_past (last c) (get_prev_header s) = Inr (median_at c (length c - 1))"
    unfolding last using c by (intro median_at_chain [OF main]) auto
  then have check: "btc_check_pow env s header (last c) = Inr () \<longleftrightarrow>
      btc_get_next_work_required (loop_gas env) (btc_get_config s) header (last c) s = Inr (bits header) \<and>
      median_at c (length c - 1) < time header \<and> unat (block_timestamp_ms env) div 1000 + 7200 < 2 ^ 32 \<and>
      unat (time header) \<le> unat (block_timestamp_ms env) div 1000 + 7200 \<and> sint (version header) \<ge> 4"
    by (auto simp: btc_check_pow_def Let_def rbind_Inr req_Inr check_not_too_new_Inr)
  have pow: "pow_ok (btc_block_hash_pow env header) (bits header) \<longleftrightarrow>
      val (u256_from_le_bytes (h256_bytes (btc_block_hash_pow env header))) \<le> target_val (bits header)"
    by (simp add: pow_ok_def val_le val_target_from_bits)
  have "(\<exists>s'. btc_submit_block_header env header False s = Inr s') \<longleftrightarrow>
      btc_check_pow env s header (last c) = Inr () \<and> pow_ok (btc_block_hash_pow env header) (bits header)"
    unfolding btc_submit_block_header_def submit_block_header_def
    using parent D(7) by (auto simp: p w n Let_def btc_into_light_def inner_on_tip rbind_Inr req_Inr)
  then show ?thesis unfolding check pow by blast
qed

text \<open>Blocks whose parent is not known are refused with the message that the relayer looks for.\<close>

lemma btc_missing_parent:
  assumes "\<not> is_paused env ''submit_blocks''" "is_trusted_relayer env" "headers_pool s (prev_block_hash h) = None"
  shows "submit_blocks bitcoin usage env (h # hs) s = Inl (Panic ''PrevBlockNotFound'')"
  using assms by (simp add: submit_blocks_def pause_guard_def trusted_relayer_guard_def Let_def bitcoin_def btc_submit_block_header_def
    submit_block_header_def get_prev_header_def btc_into_light_def)

end
