(* ===== verification/Litecoin.thy ===== *)
theory Litecoin
  imports Retarget
begin

text \<open>
  The Litecoin build of the contract: \<^verbatim>\<open>contract/src/litecoin.rs\<close>. It differs from Bitcoin in the proof of
  work (scrypt), in the block an adjustment starts from, and in a shift by one bit around the
  multiplication, which makes room for targets near the limit.
\<close>

type_synonym ltc_client = "unit btc_header_ext client"
type_synonym ltc_ext_header = "unit btc_header_ext ext_header"

section \<open>Consensus rules\<close>

definition ltc_get_config :: "ltc_client \<Rightarrow> network_config" where
  "ltc_get_config s = get_litecoin_config (network s)"

definition ltc_get_network :: "ltc_client \<Rightarrow> string \<times> network" where
  "ltc_get_network s = (''Litecoin'', network s)"

definition ltc_calculate_next_work_required :: "network_config \<Rightarrow> ltc_ext_header \<Rightarrow> i64 \<Rightarrow> u32 result" where
  "ltc_calculate_next_work_required config prev_block_header first_block_time =
     (let prev_block_time = i64_from_u32 (time (block_header prev_block_header)) in
      rbind (i64_of (prev_block_time - first_block_time)) (\<lambda>actual_time_taken.
      let actual1 = (if actual_time_taken < pow_target_timespan config sdiv 4
                     then pow_target_timespan config sdiv 4 else actual_time_taken) in
      rbind (i64_of (pow_target_timespan config * 4)) (\<lambda>max_timespan.
      let actual2 = (if actual1 > max_timespan then max_timespan else actual1);
          old_target = target_from_bits (bits (block_header prev_block_header)) in
      rbind (checked_sub (u256_bits (pow_limit config)) 1) (\<lambda>limit_bits.
      let shift = (u256_bits old_target > limit_bits);
          shifted = (if shift then u256_wrapping_shr old_target 1 else old_target) in
      rbind (u64_try_from_i64 actual2) (\<lambda>factor.
      let (new_target, new_target_overflow) = u256_overflowing_mul shifted factor in
      req (\<not> new_target_overflow) ''new target overflow''
      (rbind (u64_try_from_i64 (pow_target_timespan config)) (\<lambda>timespan.
       rbind (u256_div new_target (u256_from (ucast timespan))) (\<lambda>quotient.
       let unshifted = (if shift then u256_wrapping_shl quotient 1 else quotient) in
       target_to_bits (if unshifted > pow_limit config then pow_limit config else unshifted)))))))))"

definition ltc_get_next_work_required :: "nat \<Rightarrow> network_config \<Rightarrow> btc_header \<Rightarrow> ltc_ext_header \<Rightarrow>
    ltc_client \<Rightarrow> u32 result" where
  "ltc_get_next_work_required gas config header prev_block_header blocks_getter =
     rbind (checked_add (block_height prev_block_header) 1) (\<lambda>next_height.
     if next_height mod difficulty_adjustment_interval config \<noteq> 0 then
       if pow_allow_min_difficulty_blocks config then
         rbind (checked_mul 2 (pow_target_spacing config)) (\<lambda>spacing2.
         rbind (checked_add (time (block_header prev_block_header)) spacing2) (\<lambda>late.
         if time header > late then Inr (proof_of_work_limit_bits config)
         else rbind (skip_min_difficulty (get_prev_header blocks_getter) (proof_of_work_limit_bits config)
                (difficulty_adjustment_interval config) gas prev_block_header) (\<lambda>current_block_header.
              Inr (bits (block_header current_block_header)))))
       else Inr (bits (block_header prev_block_header))
     else
       rbind (checked_sub (difficulty_adjustment_interval config) 1) (\<lambda>interval1.
       let blocks_to_go_back = (if next_height \<noteq> difficulty_adjustment_interval config
             then difficulty_adjustment_interval config else interval1) in
       rbind (checked_sub (block_height prev_block_header) blocks_to_go_back) (\<lambda>first_block_height.
       rbind (get_header_by_height blocks_getter first_block_height) (\<lambda>interval_tail_extend_header.
       ltc_calculate_next_work_required config prev_block_header
         (i64_from_u32 (time (block_header interval_tail_extend_header)))))))"

definition ltc_check_pow :: "host \<Rightarrow> ltc_client \<Rightarrow> btc_header \<Rightarrow> ltc_ext_header \<Rightarrow> unit result" where
  "ltc_check_pow env s header prev_block_header =
     (let config = ltc_get_config s in
      rbind (ltc_get_next_work_required (loop_gas env) config header prev_block_header s) (\<lambda>expected_bits.
      req (expected_bits = bits header) ''bad-diffbits: incorrect proof of work''
      (rbind (get_median_time_past prev_block_header (get_prev_header s)) (\<lambda>median.
       req (time header > median) ''time-too-old: block's timestamp is too early''
       (rbind (check_not_too_new env (time header) ''time-too-new: block timestamp too far in the future'') (\<lambda>_.
        req (sint (version header) \<ge> 4) ''bad-version: block version must be at least 4'' (Inr ())))))))"

definition ltc_genesis_check :: "network \<Rightarrow> u64 \<Rightarrow> nat \<Rightarrow> unit result" where
  "ltc_genesis_check n height blocks =
     rbind (checked_add height 1) (\<lambda>next_height.
     req (next_height mod difficulty_adjustment_interval (get_litecoin_config n) = 0)
       ''Error: The initial block height + 1 must be divisible by the difficulty adjustment interval''
     (req (blocks > MEDIAN_TIME_SPAN) ''At least 12 initial blocks must be submitted to support MTP computation''
      (Inr ())))"

definition ltc_submit_block_header :: "host \<Rightarrow> btc_header \<Rightarrow> bool \<Rightarrow> ltc_client \<Rightarrow> ltc_client result" where
  "ltc_submit_block_header =
     submit_block_header btc_block_hash scrypt_block_hash_pow btc_into_light ltc_check_pow"

definition litecoin :: "(unit btc_header_ext, unit btc_header_ext, btc_header) chain" where
  "litecoin = \<lparr>header_hash = btc_block_hash, into_light = btc_into_light,
     genesis_check = ltc_genesis_check, genesis_submission = (\<lambda>h. h),
     submit_header = ltc_submit_block_header\<rparr>"

section \<open>Difficulty adjustment\<close>

lemma ltc_config [simp]:
  "pow_target_timespan (get_litecoin_config n) = 302400"
  "difficulty_adjustment_interval (get_litecoin_config n) = 2016"
  "proof_of_work_limit_bits (get_litecoin_config n) = 0x1e0fffff"
  "pow_target_spacing (get_litecoin_config n) = 150"
  "pow_allow_min_difficulty_blocks (get_litecoin_config n) \<longleftrightarrow> n = Testnet"
  by (cases n; simp)+

text \<open>Targets of more than 235 bits are halved before the multiplication and doubled after it.\<close>

definition ltc_scaled :: "nat \<Rightarrow> nat \<Rightarrow> nat" where
  "ltc_scaled t span = (if 2 ^ 235 \<le> t then (t div 2) * span div 302400 * 2 else t * span div 302400)"

lemma ltc_limit_bits: "checked_sub (u256_bits (pow_limit (get_litecoin_config n))) 1 = Inr 235"
proof -
  have "unat (u256_bits (pow_limit (get_litecoin_config n))) = 236"
    by (simp only: unat_u256_bits val_limits(2) bit_len_ones)
  then show ?thesis by (simp add: checked_sub_Inr)
qed

lemma ltc_shift_iff: "235 < u256_bits x \<longleftrightarrow> 2 ^ 235 \<le> val x"
  using bit_len_le [of "val x" 235] by (simp add: word_less_nat_alt unat_u256_bits not_le [symmetric])

lemma ltc_retarget:
  fixes prev :: ltc_ext_header and first :: u32
  defines "span \<equiv> clamp 75600 1209600 (i64_from_u32 (time (block_header prev)) - i64_from_u32 first)"
  assumes limit: "target_val (bits (block_header prev)) \<le> val (pow_limit (get_litecoin_config n))"
  shows "\<exists>x. ltc_calculate_next_work_required (get_litecoin_config n) prev (i64_from_u32 first) = target_to_bits x \<and>
    val x = min (val (pow_limit (get_litecoin_config n))) (ltc_scaled (target_val (bits (block_header prev))) (nat span))"
proof -
  let ?t = "target_from_bits (bits (block_header prev))" and ?l = "pow_limit (get_litecoin_config n)"
  let ?d = "i64_from_u32 (time (block_header prev)) - i64_from_u32 first"
  have d: "i64_of ?d = Inr ?d" using i64_from_u32_bounds [of "time (block_header prev)"] i64_from_u32_bounds [of first]
    by (simp add: i64_of_def)
  have quarter: "(302400 :: int) sdiv 4 = 75600" by (simp add: signed_divide_int_def)
  have cl: "(if 1209600 < (if ?d < 75600 then 75600 else ?d) then 1209600 else if ?d < 75600 then 75600 else ?d) = span"
    by (simp only: span_def clamp_def)
  have span: "75600 \<le> span" "span \<le> 1209600" using clamp_bounds [of 75600 1209600] by (simp_all add: span_def)
  obtain m where m: "u64_try_from_i64 span = Inr m" "unat m = nat span" using u64_of_nat_i64 [of span] span by auto
  obtain k where k: "u64_try_from_i64 302400 = Inr k" "unat k = 302400" using u64_of_nat_i64 [of 302400] by auto
  have tv: "val ?t < 2 ^ 236" using limit val_limits(2) [of n] by (simp add: val_target_from_bits)
  define y where "y = (if 235 < u256_bits ?t then u256_wrapping_shr ?t 1 else ?t)"
  have y: "val y = (if 2 ^ 235 \<le> val ?t then val ?t div 2 else val ?t)"
    by (simp add: y_def ltc_shift_iff val_shr del: power_numeral)
  have "val ?t div 2 \<le> 2 ^ 235" using tv by simp
  then have "val y \<le> 2 ^ 235" unfolding y by simp
  moreover have m21: "unat m \<le> 1209600" using m(2) span by simp
  ultimately have prod: "val y * unat m \<le> 2 ^ 235 * 1209600" by (rule mult_le_mono)
  then have small: "val y * unat m < B256" by simp
  have carry: "lost_carry y m = 0"
  proof (cases "2 ^ 235 \<le> val ?t")
    case True
    then have "2 ^ (23 + 65) \<le> target_val (bits (block_header prev))" by (simp add: val_target_from_bits)
    then have "(2 :: nat) ^ 65 dvd val ?t" unfolding val_target_from_bits by (rule target_val_dvd) simp
    then have "2 ^ 64 dvd val y" using True unfolding y by (auto elim!: dvdE)
    then show ?thesis by (rule lost_carry_aligned)
  next
    case False
    then have "y = ?t" by (simp add: y_def ltc_shift_iff)
    then show ?thesis using m21 by (simp add: lost_carry_compact)
  qed
  from k(2) have "unat k \<noteq> 0" by simp
  from scale_and_divide [OF carry small this] obtain p q where
    pq: "u256_overflowing_mul y m = (p, False)" "u256_div p (u256_from (ucast k)) = Inr q"
      "val q = val y * unat m div unat k" .
  define r where "r = (if 235 < u256_bits ?t then u256_wrapping_shl q 1 else q)"
  have "i64_of 1209600 = Inr 1209600" by (simp add: i64_of_def)
  then have run: "ltc_calculate_next_work_required (get_litecoin_config n) prev (i64_from_u32 first) =
      target_to_bits (if r > ?l then ?l else r)"
    unfolding ltc_calculate_next_work_required_def Let_def d ltc_config quarter ltc_limit_bits r_def
    by (simp add: cl m(1) k(1) pq(1,2) y_def [symmetric] split del: if_split)
  have "val q \<le> 2 ^ 235 * 1209600 div 302400" unfolding pq(3) k(2) using prod by (rule div_le_mono)
  then have "val q * 2 < B256" by simp
  then have "val r = (if 2 ^ 235 \<le> val ?t then val q * 2 else val q)"
    by (simp add: r_def ltc_shift_iff val_shl del: power_numeral)
  then have "val r = ltc_scaled (target_val (bits (block_header prev))) (nat span)"
    using pq(3) y by (simp add: m(2) k(2) ltc_scaled_def val_target_from_bits del: power_numeral)
  then show ?thesis using run
    by (intro exI [of _ "if r > ?l then ?l else r"]) (simp only: val_limit)
qed

interpretation ltc: submission litecoin "\<lambda>h. h"
  by (rule submissionI) (simp_all add: litecoin_def ltc_submit_block_header_def btc_into_light_def)

text \<open>An adjustment on the main chain starts from the block before the interval.\<close>

lemma ltc_next_work_adjust:
  assumes main: "has_main_chain s c" and i: "2016 \<le> i" "i < length c"
    and boundary: "(unat (block_height (c ! i)) + 1) mod 2016 = 0"
    and limit: "target_val (bits (block_header (c ! i))) \<le> val (pow_limit (get_litecoin_config n))"
  shows "\<exists>x. ltc_get_next_work_required gas (get_litecoin_config n) header (c ! i) s = target_to_bits x \<and>
    val x = min (val (pow_limit (get_litecoin_config n)))
      (ltc_scaled (target_val (bits (block_header (c ! i)))) (nat (clamp 75600 1209600
        (i64_from_u32 (time (block_header (c ! i))) - i64_from_u32 (time (block_header (c ! (i - 2016))))))))"
proof -
  have "unat (block_height (c ! i)) + 1 \<noteq> 2 ^ 64" using boundary by auto
  then have "unat (block_height (c ! i)) + 1 < 2 ^ 64" using unat_lt_exp [of "block_height (c ! i)"] by simp
  then obtain m where m0: "checked_add (block_height (c ! i)) 1 = Inr m" "unat m = unat (block_height (c ! i)) + 1"
    "m mod 2016 = 0 \<longleftrightarrow> (unat (block_height (c ! i)) + 1) mod unat (2016 :: u64) = 0" by (rule checked_next_mod)
  have "unat m > 2016" using m0(2) client_getter.consecutive [OF main i(2)] i(1) by simp
  then have "m \<noteq> 2016" by auto
  with boundary m0 have m: "checked_add (block_height (c ! i)) 1 = Inr m" "m mod 2016 = 0" "m \<noteq> 2016" by simp_all
  obtain k where k: "checked_sub (block_height (c ! i)) 2016 = Inr k" "get_header_by_height s k = Inr (c ! (i - 2016))"
    using client_getter.block_back [OF main i(2), of 2016] i(1) by auto
  have "ltc_get_next_work_required gas (get_litecoin_config n) header (c ! i) s =
      ltc_calculate_next_work_required (get_litecoin_config n) (c ! i) (i64_from_u32 (time (block_header (c ! (i - 2016)))))"
    unfolding ltc_get_next_work_required_def by (simp add: m k checked_sub_def [of 2016])
  then show ?thesis using ltc_retarget [OF limit] by simp
qed

section \<open>Accepted headers\<close>

lemma ltc_accepted:
  assumes "ltc_submit_block_header env header False s = Inr s'"
  obtains p where "headers_pool s (prev_block_hash header) = Some p"
    "ltc_get_next_work_required (loop_gas env) (ltc_get_config s) header p s = Inr (bits header)"
    "\<exists>median. get_median_time_past p (get_prev_header s) = Inr median \<and> median < time header"
    "unat (time header) \<le> unat (block_timestamp_ms env) div 1000 + 7200"
    "sint (version header) \<ge> 4"
    "pow_ok (scrypt_block_hash_pow env header) (bits header)"
  using assms unfolding ltc_submit_block_header_def
proof (rule submit_block_header_Inr)
  fix p e
  assume p: "headers_pool s (prev_block_hash (btc_into_light header)) = Some p"
    and "\<not> False \<Longrightarrow> ltc_check_pow env s header p = Inr () \<and> pow_ok (scrypt_block_hash_pow env header) (bits header)"
  then have check: "ltc_check_pow env s header p = Inr ()" and pow: "pow_ok (scrypt_block_hash_pow env header) (bits header)"
    by auto
  from check show thesis
    by (intro that [of p])
       (use p pow in \<open>auto simp: ltc_check_pow_def Let_def rbind_Inr req_Inr check_not_too_new_Inr btc_into_light_def\<close>)
qed

end
