(* ===== verification/Dogecoin.thy ===== *)
theory Dogecoin
  imports Retarget
begin

unbundle bit_operations_syntax

text \<open>
  The Dogecoin build of the contract: \<^verbatim>\<open>contract/src/dogecoin.rs\<close>. A block comes with optional data for
  merged mining, which replaces the proof of work of the block by that of a parent block of another
  chain; the difficulty is adjusted with every block. Positions in the coinbase script are positions in
  its hexadecimal form.
\<close>

type_synonym doge_client = "unit btc_header_ext client"
type_synonym doge_ext_header = "unit btc_header_ext ext_header"
type_synonym doge_block_header = "btc_header \<times> aux_data option"

section \<open>Merged mining\<close>

definition MERGED_MINING_HEADER :: string where "MERGED_MINING_HEADER = ''fabe6d6d''"

definition doge_get_config :: "doge_client \<Rightarrow> dogecoin_config" where
  "doge_get_config s = get_dogecoin_config (network s)"

definition doge_get_network :: "doge_client \<Rightarrow> string \<times> network" where
  "doge_get_network s = (''Dogecoin'', network s)"

text \<open>\<open>u32::try_from\<close> of an \<open>i32\<close> fails on negative numbers.\<close>

definition get_expected_index :: "u32 \<Rightarrow> i32 \<Rightarrow> nat \<Rightarrow> u32 result" where
  "get_expected_index n_nonce chain_id merkle_height =
     (let rand1 = n_nonce * 1103515245 + 12345 in
      rbind (if 0 \<le> sint chain_id then Inr chain_id else Inl Unwrap) (\<lambda>id.
      let rand2 = rand1 + id;
          rand3 = rand2 * 1103515245 + 12345
      in Inr (rand3 mod push_bit merkle_height 1)))"

text \<open>Eight hexadecimal digits of the script as a little-endian number.\<close>

definition script_u32 :: "host \<Rightarrow> string \<Rightarrow> nat \<Rightarrow> u32 result" where
  "script_u32 env script pos =
     rbind (get_or Unwrap (hex_decode env (byte_slice script pos (pos + 8)))) (\<lambda>bytes.
     if length bytes < 4 then Inl IndexOutOfBounds else Inr (from_le_bytes_w (take 4 bytes)))"

definition check_aux :: "host \<Rightarrow> doge_client \<Rightarrow> btc_header \<Rightarrow> aux_data \<Rightarrow> unit result" where
  "check_aux env s header aux =
     req (length (aux_chain_merkle_proof aux) \<le> 30) ''Aux POW chain merkle branch too long''
     (req (version header AND 0x100 \<noteq> 0) ''Aux POW block does not have AuxPoW flag set in version''
     (let chain_id = config_aux_chain_id (doge_get_config s) in
      req (chain_id = get_chain_id header) ''block does not have our chain ID''
      (req (chain_id \<noteq> get_chain_id (aux_parent_block aux)) ''Aux POW parent has our chain ID''
      (let chain_root = compute_root_from_merkle_proof env (btc_block_hash env header) (aux_chain_id aux)
             (aux_chain_merkle_proof aux) in
       rbind (get_coinbase_tx env aux) (\<lambda>(coinbase_tx_hash, first_script).
       req (compute_root_from_merkle_proof env coinbase_tx_hash (0 :: usize) (aux_merkle_proof aux) =
            merkle_root (aux_parent_block aux)) ''require! assertion failed''
       (rbind (get_or Unwrap first_script) (\<lambda>script_sig.
        let root_hex = h256_to_string env chain_root in
        rbind (get_or (Panic ''Aux POW missing chain merkle root in parent coinbase'') (str_find root_hex script_sig)) (\<lambda>pos_root.
        rbind (case str_find MERGED_MINING_HEADER script_sig of
            Some pos_header \<Rightarrow>
              if str_find MERGED_MINING_HEADER (drop (pos_header + length MERGED_MINING_HEADER) script_sig) \<noteq> None
              then Inl (Panic ''Multiple merged mining headers in coinbase'')
              else req (pos_header + length MERGED_MINING_HEADER = pos_root)
                ''Merged mining header is not just before chain merkle root'' (Inr ())
          | None \<Rightarrow> req (pos_root \<le> 40)
              ''Aux POW chain merkle root must start in the first 20 bytes of the parent coinbase'' (Inr ())) (\<lambda>_.
        let pos_chain_root = pos_root + length root_hex in
        req (length script_sig - pos_chain_root \<ge> 16)
          ''Aux POW missing chain merkle tree size and nonce in parent coinbase''
        (rbind (script_u32 env script_sig pos_chain_root) (\<lambda>n_size.
         req (n_size = push_bit (length (aux_chain_merkle_proof aux)) 1)
           ''Aux POW merkle branch size does not match parent coinbase''
         (rbind (script_u32 env script_sig (pos_chain_root + 8)) (\<lambda>n_nonce.
          rbind (get_expected_index n_nonce (get_chain_id header) (length (aux_chain_merkle_proof aux))) (\<lambda>expected_index.
          req (aux_chain_id aux = expected_index) ''Aux POW wrong index''
          (req (skip_pow_verification s \<or>
                pow_ok (scrypt_block_hash_pow env (aux_parent_block aux)) (bits header))
             ''block should have correct pow'' (Inr ()))))))))))))))))"

section \<open>Difficulty\<close>

definition allow_min_difficulty_for_block :: "dogecoin_config \<Rightarrow> btc_header \<Rightarrow> doge_ext_header \<Rightarrow> bool result" where
  "allow_min_difficulty_for_block config header prev_block_header =
     (if \<not> pow_allow_min_difficulty_blocks config then Inr False
      else if block_height prev_block_header < 157500 then Inr False
      else rbind (checked_mul (pow_target_spacing config) 2) (\<lambda>spacing2.
           rbind (checked_add (time (block_header prev_block_header)) spacing2) (\<lambda>late.
           Inr (time header > late))))"

definition doge_calculate_next_work_required :: "dogecoin_config \<Rightarrow> doge_ext_header \<Rightarrow> i64 \<Rightarrow> u32 result" where
  "doge_calculate_next_work_required config prev_block_header first_block_time =
     (let retarget_timespan = pow_target_timespan config in
      rbind (i64_of (i64_from_u32 (time (block_header prev_block_header)) - first_block_time)) (\<lambda>elapsed.
      rbind (i64_of (elapsed - retarget_timespan)) (\<lambda>deviation.
      rbind (i64_of (retarget_timespan + deviation sdiv 8)) (\<lambda>modulated.
      rbind (i64_of (retarget_timespan - retarget_timespan sdiv 4)) (\<lambda>min_timespan.
      rbind (i64_of (retarget_timespan + retarget_timespan sdiv 2)) (\<lambda>max_timespan.
      let modulated_timespan = (if modulated < min_timespan then min_timespan
            else if modulated > max_timespan then max_timespan else modulated) in
      rbind (u64_try_from_i64 modulated_timespan) (\<lambda>factor.
      let (new_target, new_target_overflow) =
            u256_overflowing_mul (target_from_bits (bits (block_header prev_block_header))) factor in
      req (\<not> new_target_overflow) ''new target overflow''
      (rbind (u64_try_from_i64 retarget_timespan) (\<lambda>timespan.
       rbind (u256_div new_target (u256_from (ucast timespan))) (\<lambda>quotient.
       target_to_bits (if quotient > pow_limit config then pow_limit config else quotient)))))))))))"

definition doge_get_next_work_required :: "nat \<Rightarrow> dogecoin_config \<Rightarrow> btc_header \<Rightarrow> doge_ext_header \<Rightarrow>
    doge_client \<Rightarrow> u32 result" where
  "doge_get_next_work_required gas config header prev_block_header blocks_getter =
     rbind (allow_min_difficulty_for_block config header prev_block_header) (\<lambda>allowed.
     if allowed then Inr (proof_of_work_limit_bits config)
     else
       let new_difficulty_protocol = (block_height prev_block_header \<ge> 145000);
           interval = (if new_difficulty_protocol then 1 else difficulty_adjustment_interval config) in
       rbind (checked_add (block_height prev_block_header) 1) (\<lambda>next_height.
       if next_height mod interval \<noteq> 0 then
         if pow_allow_min_difficulty_blocks config then
           rbind (checked_mul (pow_target_spacing config) 2) (\<lambda>spacing2.
           rbind (checked_add (time (block_header prev_block_header)) spacing2) (\<lambda>late.
           if time header > late then Inr (proof_of_work_limit_bits config)
           else rbind (skip_min_difficulty (get_prev_header blocks_getter) (proof_of_work_limit_bits config)
                  (difficulty_adjustment_interval config) gas prev_block_header) (\<lambda>current_block_header.
                Inr (bits (block_header current_block_header)))))
         else Inr (bits (block_header prev_block_header))
       else
         rbind (checked_sub interval 1) (\<lambda>interval1.
         let blocks_to_go_back = (if next_height \<noteq> interval then interval else interval1) in
         rbind (case checked_sub (block_height prev_block_header) blocks_to_go_back of
             Inl _ \<Rightarrow> Inl (Panic ''Height underflow when calculating first block height'')
           | Inr h \<Rightarrow> Inr h) (\<lambda>height_first.
         rbind (get_header_by_height blocks_getter height_first) (\<lambda>first.
         doge_calculate_next_work_required config prev_block_header (i64_from_u32 (time (block_header first))))))))"

section \<open>Submission\<close>

definition doge_check_pow :: "host \<Rightarrow> doge_client \<Rightarrow> btc_header \<Rightarrow> doge_ext_header \<Rightarrow> unit result" where
  "doge_check_pow env s header prev_block_header =
     rbind (doge_get_next_work_required (loop_gas env) (doge_get_config s) header prev_block_header s) (\<lambda>expected_bits.
     req (expected_bits = bits header) ''Error: Incorrect target''
     (rbind (get_median_time_past prev_block_header (get_prev_header s)) (\<lambda>median.
      req (time header > median) ''time-too-old: block's timestamp is too early''
      (check_not_too_new env (time header) ''time-too-new: block timestamp too far in the future''))))"

definition doge_submit_block_header :: "host \<Rightarrow> doge_block_header \<Rightarrow> bool \<Rightarrow> doge_client \<Rightarrow> doge_client result" where
  "doge_submit_block_header env header_aux skip_pow s =
     (let (header, aux_data) = header_aux in
      rbind (get_prev_header s header) (\<lambda>prev_block_header.
      let current_block_hash = btc_block_hash env header in
      rbind (if skip_pow then Inr ()
             else rbind (doge_check_pow env s header prev_block_header) (\<lambda>_.
               case aux_data of
                 Some aux \<Rightarrow> check_aux env s header aux
               | None \<Rightarrow> req (pow_ok (scrypt_block_hash_pow env header) (bits header))
                   ''block should have correct pow'' (Inr ()))) (\<lambda>_.
      rbind (add_work (chain_work prev_block_header) (bits header)) (\<lambda>current_block_computed_chain_work.
      rbind (checked_add 1 (block_height prev_block_header)) (\<lambda>height.
      let current_header = \<lparr>block_header = btc_into_light header, block_hash = current_block_hash,
            chain_work = current_block_computed_chain_work, block_height = height\<rparr> in
      submit_block_header_inner env current_header prev_block_header s)))))"

definition doge_genesis_check :: "network \<Rightarrow> u64 \<Rightarrow> nat \<Rightarrow> unit result" where
  "doge_genesis_check n height blocks =
     rbind (checked_add height 1) (\<lambda>next_height.
     req (next_height mod difficulty_adjustment_interval (get_dogecoin_config n) = 0)
       ''Error: The initial block height + 1 must be divisible by the difficulty adjustment interval''
     (req (blocks > MEDIAN_TIME_SPAN) ''At least 12 initial blocks must be submitted to support MTP computation''
      (Inr ())))"

definition dogecoin :: "(unit btc_header_ext, unit btc_header_ext, doge_block_header) chain" where
  "dogecoin = \<lparr>header_hash = btc_block_hash, into_light = btc_into_light,
     genesis_check = doge_genesis_check, genesis_submission = (\<lambda>h. (h, None)),
     submit_header = doge_submit_block_header\<rparr>"

section \<open>Properties of the pieces\<close>

text \<open>The slot of a chain in the merged-mining tree lies in the tree.\<close>

lemma unat_push_1: "h < 32 \<Longrightarrow> unat (push_bit h 1 :: u32) = 2 ^ h"
proof -
  assume h: "h < 32"
  then have "(2 :: nat) ^ h < 2 ^ 32" by (intro power_strict_increasing) auto
  then show ?thesis by (simp only: unsigned_push_bit_eq) (use h in \<open>simp add: push_bit_eq_mult take_bit_nat_eq_self\<close>)
qed

lemma expected_index_bound:
  assumes "get_expected_index n cid h = Inr k" "h < 32"
  shows "unat k < 2 ^ h"
proof -
  obtain r where "k = r mod push_bit h 1" using assms(1) by (auto simp: get_expected_index_def Let_def split: if_splits)
  then show ?thesis using unat_push_1 [OF assms(2)] by (simp add: unat_mod_distrib)
qed

section \<open>Difficulty adjustment\<close>

lemma doge_config [simp]:
  "pow_target_timespan (get_dogecoin_config n) = 60"
  "difficulty_adjustment_interval (get_dogecoin_config n) = 1"
  "proof_of_work_limit_bits (get_dogecoin_config n) = 0x1e0fffff"
  "pow_target_spacing (get_dogecoin_config n) = 60"
  "pow_allow_min_difficulty_blocks (get_dogecoin_config n) \<longleftrightarrow> n = Testnet"
  "config_aux_chain_id (get_dogecoin_config n) = 0x62"
  by (cases n; simp)+

lemma sdiv_8_bounds: "- (2 ^ 33) \<le> x \<Longrightarrow> x \<le> 2 ^ 33 \<Longrightarrow> - (2 ^ 33) \<le> x sdiv 8 \<and> x sdiv (8 :: int) \<le> 2 ^ 33"
  by (auto simp: signed_divide_int_def sgn_if abs_if)

text \<open>The deviation from one minute counts for an eighth; the result stays between 45 and 90 seconds.\<close>

lemma doge_retarget:
  fixes prev :: doge_ext_header and first :: u32
  defines "d \<equiv> i64_from_u32 (time (block_header prev)) - i64_from_u32 first"
  defines "span \<equiv> clamp 45 90 (60 + (d - 60) sdiv 8)"
  assumes limit: "target_val (bits (block_header prev)) \<le> val (pow_limit (get_dogecoin_config n))"
  shows "\<exists>x. doge_calculate_next_work_required (get_dogecoin_config n) prev (i64_from_u32 first) = target_to_bits x \<and>
    val x = min (val (pow_limit (get_dogecoin_config n))) (target_val (bits (block_header prev)) * nat span div 60)"
proof -
  let ?t = "target_from_bits (bits (block_header prev))" and ?l = "pow_limit (get_dogecoin_config n)"
  have b: "- (2 ^ 32) \<le> d" "d \<le> 2 ^ 32"
    using i64_from_u32_bounds [of "time (block_header prev)"] i64_from_u32_bounds [of first] by (simp_all add: d_def)
  then have d: "i64_of d = Inr d" "i64_of (d - 60) = Inr (d - 60)" by (simp_all add: i64_of_def)
  have m0: "i64_of (60 + (d - 60) sdiv 8) = Inr (60 + (d - 60) sdiv 8)"
    using sdiv_8_bounds [of "d - 60"] b by (simp add: i64_of_def)
  have q: "(60 :: int) sdiv 4 = 15" "(60 :: int) sdiv 2 = 30" by (simp_all add: signed_divide_int_def)
  have c: "i64_of (60 - 15) = Inr 45" "i64_of (60 + 30) = Inr 90" by (simp_all add: i64_of_def)
  have cl: "(if x < 45 then 45 else if 90 < x then 90 else x) = clamp 45 90 x" for x by (simp add: clamp_def)
  have span: "45 \<le> span" "span \<le> 90" using clamp_bounds [of 45 90] by (simp_all add: span_def)
  obtain m where m: "u64_try_from_i64 span = Inr m" "unat m = nat span" using u64_of_nat_i64 [of span] span by auto
  obtain k where k: "u64_try_from_i64 60 = Inr k" "unat k = 60" using u64_of_nat_i64 [of 60] by auto
  have carry: "lost_carry ?t m = 0" by (rule lost_carry_compact) (use m(2) span in simp)
  have "val ?t \<le> 2 ^ 236" using limit val_limits(3) [of n] by (simp add: val_target_from_bits)
  moreover have "unat m \<le> 90" using m(2) span by simp
  ultimately have "val ?t * unat m \<le> 2 ^ 236 * 90" by (rule mult_le_mono)
  then have small: "val ?t * unat m < B256" by simp
  from k(2) have "unat k \<noteq> 0" by simp
  from scale_and_divide [OF carry small this] obtain p r where
    pr: "u256_overflowing_mul ?t m = (p, False)" "u256_div p (u256_from (ucast k)) = Inr r"
      "val r = val ?t * unat m div unat k" .
  have "doge_calculate_next_work_required (get_dogecoin_config n) prev (i64_from_u32 first) =
      target_to_bits (if r > ?l then ?l else r)"
    unfolding doge_calculate_next_work_required_def Let_def d_def [symmetric] doge_config q c d rbind_simps m0 cl
    by (simp add: m(1) k(1) pr(1,2) span_def [symmetric] split del: if_split)
  moreover have "val r = target_val (bits (block_header prev)) * nat span div 60"
    using pr(3) by (simp add: m(2) k(2) val_target_from_bits)
  ultimately show ?thesis
    by (intro exI [of _ "if r > ?l then ?l else r"]) (simp only: val_limit)
qed

section \<open>Submission\<close>

lemma doge_submit_Inr:
  assumes "doge_submit_block_header env (header, aux) skip s = Inr s'"
  obtains p e where "headers_pool s (prev_block_hash header) = Some p"
    "block_header e = header" "block_hash e = btc_block_hash env header"
    "val (chain_work e) = val (chain_work p) + block_work (bits header)"
    "unat (block_height e) = Suc (unat (block_height p))"
    "\<not> skip \<Longrightarrow> doge_check_pow env s header p = Inr () \<and>
      (case aux of Some a \<Rightarrow> check_aux env s header a = Inr ()
       | None \<Rightarrow> pow_ok (scrypt_block_hash_pow env header) (bits header))"
    "submit_block_header_inner env e p s = Inr s'"
proof -
  from assms obtain p w n where
    p: "headers_pool s (prev_block_hash header) = Some p" and
    w: "add_work (chain_work p) (bits header) = Inr w" and
    n: "checked_add 1 (block_height p) = Inr n" and
    checks: "\<not> skip \<longrightarrow> doge_check_pow env s header p = Inr () \<and>
      (case aux of Some a \<Rightarrow> check_aux env s header a = Inr ()
       | None \<Rightarrow> pow_ok (scrypt_block_hash_pow env header) (bits header))" and
    inner: "submit_block_header_inner env \<lparr>block_header = header, block_hash = btc_block_hash env header,
      chain_work = w, block_height = n\<rparr> p s = Inr s'"
    by (auto simp: doge_submit_block_header_def get_prev_header_def Let_def rbind_Inr req_Inr get_or_Inr
        btc_into_light_def split: if_splits option.splits)
  show thesis
    by (rule that [OF p _ _ _ _ _ inner])
       (use w n checks in \<open>auto simp: add_work_Inr checked_add_Inr\<close>)
qed

interpretation doge: submission dogecoin fst
proof
  fix env and b :: doge_block_header and skip s s'
  obtain header aux where b: "b = (header, aux)" by fastforce
  assume "submit_header dogecoin env b skip s = Inr s'"
  then have "doge_submit_block_header env (header, aux) skip s = Inr s'" by (simp add: dogecoin_def b)
  then show "\<exists>p e. headers_pool s (prev_block_hash (into_light dogecoin (fst b))) = Some p \<and>
      block_header e = into_light dogecoin (fst b) \<and> block_hash e = header_hash dogecoin env (fst b) \<and>
      val (chain_work e) = val (chain_work p) + block_work (bits (fst b)) \<and>
      unat (block_height e) = Suc (unat (block_height p)) \<and> submit_block_header_inner env e p s = Inr s'"
    by (elim doge_submit_Inr) (auto simp: dogecoin_def b btc_into_light_def)
next
  fix s :: doge_client and p env and b :: doge_block_header
  assume p: "headers_pool s (mainchain_tip_blockhash s) = Some p" "block_hash p = mainchain_tip_blockhash s"
    "prev_block_hash (into_light dogecoin (fst b)) = block_hash p"
    "val (chain_work p) + block_work (bits (fst b)) < B256" "Suc (unat (block_height p)) < 2 ^ 64"
  from skip_submission [OF p, of env "btc_block_hash env (fst b)"]
  show "\<exists>e. submit_header dogecoin env b True s = Inr ((store_block_header e s)\<lparr>mainchain_tip_blockhash := block_hash e\<rparr>) \<and>
      block_header e = into_light dogecoin (fst b) \<and> block_hash e = header_hash dogecoin env (fst b) \<and>
      val (chain_work e) = val (chain_work p) + block_work (bits (fst b)) \<and>
      unat (block_height e) = Suc (unat (block_height p))"
    by (cases b) (simp add: dogecoin_def doge_submit_block_header_def btc_into_light_def Let_def)
qed (simp_all add: dogecoin_def btc_into_light_def)

text \<open>On the main network every block is adjusted to the time since the block before it.\<close>

lemma doge_next_work_mainnet:
  assumes main: "has_main_chain s c" and i: "1 \<le> i" "i < length c" and height: "unat (block_height (c ! i)) + 1 < 2 ^ 64"
    and limit: "target_val (bits (block_header (c ! i))) \<le> val (pow_limit (get_dogecoin_config Mainnet))"
  shows "\<exists>x. doge_get_next_work_required gas (get_dogecoin_config Mainnet) header (c ! i) s = target_to_bits x \<and>
    val x = min (val (pow_limit (get_dogecoin_config Mainnet)))
      (target_val (bits (block_header (c ! i))) * nat (clamp 45 90 (60 +
        (i64_from_u32 (time (block_header (c ! i))) - i64_from_u32 (time (block_header (c ! (i - 1)))) - 60) sdiv 8)) div 60)"
proof -
  let ?h = "block_height (c ! i)"
  obtain m where m0: "checked_add ?h 1 = Inr m" "unat m = unat ?h + 1" using checked_next [OF height] by blast
  then have "unat m \<noteq> 1" using client_getter.consecutive [OF main i(2)] i(1) by simp
  then have m: "checked_add ?h 1 = Inr m" "m mod 1 = 0" "m \<noteq> 1" using m0(1) by auto
  obtain k where k: "checked_sub ?h 1 = Inr k" "get_header_by_height s k = Inr (c ! (i - 1))"
    using client_getter.block_back [OF main i(2), of 1] i(1) by auto
  have allow: "allow_min_difficulty_for_block (get_dogecoin_config Mainnet) header (c ! i) = Inr False"
    unfolding allow_min_difficulty_for_block_def doge_config by simp
  have one: "(if 145000 \<le> ?h then 1 else 1) = (1 :: u64)" "checked_sub 1 (1 :: u64) = Inr 0" by (simp_all add: checked_sub_def)
  have "doge_get_next_work_required gas (get_dogecoin_config Mainnet) header (c ! i) s =
      doge_calculate_next_work_required (get_dogecoin_config Mainnet) (c ! i) (i64_from_u32 (time (block_header (c ! (i - 1)))))"
    unfolding doge_get_next_work_required_def allow rbind_simps Let_def m(1) doge_config one
    by (simp add: m(2,3) k del: get_dogecoin_config.simps)
  then show ?thesis using doge_retarget [OF limit] by simp
qed

text \<open>What merged mining proves: the parent block commits to this block, at the slot of this chain.\<close>

lemma check_aux_Inr:
  assumes "check_aux env s header aux = Inr ()"
  obtains coinbase script pos where
    "parse_coinbase env (aux_coinbase_tx aux) = Some (coinbase, Some script)"
    "path_root env coinbase 0 (aux_merkle_proof aux) = merkle_root (aux_parent_block aux)"
    "str_find (h256_to_string env (path_root env (btc_block_hash env header) (unat (aux_chain_id aux))
      (aux_chain_merkle_proof aux))) script = Some pos"
    "length (aux_chain_merkle_proof aux) \<le> 30" "unat (aux_chain_id aux) < 2 ^ length (aux_chain_merkle_proof aux)"
    "get_chain_id header = 0x62" "get_chain_id (aux_parent_block aux) \<noteq> 0x62"
    "\<not> skip_pow_verification s \<Longrightarrow> pow_ok (scrypt_block_hash_pow env (aux_parent_block aux)) (bits header)"
proof -
  from assms obtain coinbase script pos n_nonce where
    len: "length (aux_chain_merkle_proof aux) \<le> 30" and
    ids: "0x62 = get_chain_id header" "0x62 \<noteq> get_chain_id (aux_parent_block aux)" and
    parse: "get_coinbase_tx env aux = Inr (coinbase, Some script)" and
    root: "compute_root_from_merkle_proof env coinbase (0 :: usize) (aux_merkle_proof aux) = merkle_root (aux_parent_block aux)" and
    pos: "str_find (h256_to_string env (compute_root_from_merkle_proof env (btc_block_hash env header) (aux_chain_id aux)
      (aux_chain_merkle_proof aux))) script = Some pos" and
    index: "get_expected_index n_nonce (get_chain_id header) (length (aux_chain_merkle_proof aux)) = Inr (aux_chain_id aux)" and
    pow: "skip_pow_verification s \<or> pow_ok (scrypt_block_hash_pow env (aux_parent_block aux)) (bits header)"
    unfolding check_aux_def Let_def doge_get_config_def doge_config
    by (auto simp: rbind_Inr req_Inr get_or_Inr split: prod.splits)
  have "parse_coinbase env (aux_coinbase_tx aux) = Some (coinbase, Some script)"
    using parse by (simp add: get_coinbase_tx_def get_or_Inr)
  moreover have "unat (aux_chain_id aux) < 2 ^ length (aux_chain_merkle_proof aux)"
    using expected_index_bound [OF index] len by simp
  ultimately show thesis
    using that [of coinbase script pos] len ids root pos pow by (auto simp: compute_root_path)
qed

lemma doge_accepted_aux:
  assumes "doge_submit_block_header env (header, Some aux) False s = Inr s'"
  shows "\<exists>p. headers_pool s (prev_block_hash header) = Some p \<and> check_aux env s header aux = Inr () \<and>
    doge_get_next_work_required (loop_gas env) (doge_get_config s) header p s = Inr (bits header) \<and>
    (\<exists>median. get_median_time_past p (get_prev_header s) = Inr median \<and> median < time header) \<and>
    unat (time header) \<le> unat (block_timestamp_ms env) div 1000 + 7200"
proof -
  from assms obtain p where "headers_pool s (prev_block_hash header) = Some p" "doge_check_pow env s header p = Inr ()"
    "check_aux env s header aux = Inr ()" by (rule doge_submit_Inr) auto
  then show ?thesis by (auto simp: doge_check_pow_def rbind_Inr req_Inr check_not_too_new_Inr)
qed

end
