(* ===== verification/Zcash.thy ===== *)
theory Zcash
  imports Retarget
begin

text \<open>
  The Zcash build of the contract: \<^verbatim>\<open>contract/src/zcash.rs\<close>. The difficulty follows the mean target of the
  last 17 blocks and the time between two medians; a block also carries an Equihash solution.
\<close>

type_synonym zcash_client = "unit zcash_light_header_ext client"
type_synonym zcash_ext_header = "unit zcash_light_header_ext ext_header"

section \<open>Consensus rules\<close>

definition zcash_get_config :: "zcash_client \<Rightarrow> zcash_config" where
  "zcash_get_config s = get_zcash_config (network s)"

definition zcash_get_network :: "zcash_client \<Rightarrow> string \<times> network" where
  "zcash_get_network s = (''Zcash'', network s)"

record next_work_result =
  expected_bits :: u32
  prev_block_median_time_past :: u32

definition zcash_calculate_next_work_required :: "zcash_config \<Rightarrow> u256 \<Rightarrow> u32 \<Rightarrow> u32 \<Rightarrow> u32 result" where
  "zcash_calculate_next_work_required config average_target last_median first_median =
     rbind (averaging_window_timespan config) (\<lambda>window_timespan.
     rbind (min_actual_timespan config) (\<lambda>min_timespan.
     rbind (max_actual_timespan config) (\<lambda>max_timespan.
     rbind (i64_of (i64_from_u32 last_median - i64_from_u32 first_median)) (\<lambda>between.
     rbind (i64_of (between - window_timespan)) (\<lambda>deviation.
     rbind (i64_of (window_timespan + deviation sdiv 4)) (\<lambda>actual.
     let actual1 = (if actual < min_timespan then min_timespan else actual);
         actual2 = (if actual1 > max_timespan then max_timespan else actual1) in
     rbind (u64_try_from_i64 window_timespan) (\<lambda>divisor.
     rbind (u256_div average_target (u256_from (ucast divisor))) (\<lambda>quotient.
     rbind (u64_try_from_i64 actual2) (\<lambda>factor.
     let (new_target, new_target_overflow) = u256_overflowing_mul quotient factor in
     req (\<not> new_target_overflow) ''new target overflow''
     (target_to_bits (if new_target > z_pow_limit config then z_pow_limit config else new_target)))))))))))"

text \<open>
  The first loop of \<open>zcash_get_next_work_required\<close>: iteration \<open>i\<close> writes slot \<open>i\<close> of the array of times,
  adds the target and steps to the previous block.
\<close>

fun averaging_loop :: "('a header_base_scheme \<Rightarrow> 'a ext_header result) \<Rightarrow> nat \<Rightarrow> nat \<Rightarrow> 'a ext_header \<Rightarrow>
    u256 \<Rightarrow> u32 list \<Rightarrow> (u256 \<times> u32 list \<times> 'a ext_header) result" where
  "averaging_loop get_prev 0 i current_header total_target median_time = Inr (total_target, median_time, current_header)"
| "averaging_loop get_prev (Suc n) i current_header total_target median_time =
     (let median_time' = (if i < MEDIAN_TIME_SPAN then median_time[i := time (block_header current_header)] else median_time);
          (sum, overflow) = u256_overflowing_add total_target (target_from_bits (bits (block_header current_header)))
      in req (\<not> overflow) ''Addition of U256 values overflowed''
         (rbind (get_prev (block_header current_header)) (\<lambda>prev.
          averaging_loop get_prev n (Suc i) prev sum median_time')))"

definition zcash_get_next_work_required :: "zcash_config \<Rightarrow> zcash_header \<Rightarrow> zcash_ext_header \<Rightarrow>
    zcash_client \<Rightarrow> next_work_result result" where
  "zcash_get_next_work_required config header prev_block_header prev_block_getter =
     (let get_prev = get_prev_header prev_block_getter in
      rbind (if 0 \<le> pow_averaging_window config then Inr (nat (pow_averaging_window config)) else Inl Unwrap) (\<lambda>window.
      rbind (averaging_loop get_prev window 0 prev_block_header u256_ZERO (replicate MEDIAN_TIME_SPAN 0))
        (\<lambda>(total_target, median_time, current_header).
      let prev_median = median_of median_time in
      rbind (collect_times get_prev MEDIAN_TIME_SPAN current_header) (\<lambda>(first_times, _).
      let first_median = median_of first_times in
      rbind (case pow_allow_min_difficulty_blocks_after_height config of
          None \<Rightarrow> Inr False
        | Some after_height \<Rightarrow>
          if block_height prev_block_header \<ge> after_height then
            rbind (i64_of (z_pow_target_spacing config * 6)) (\<lambda>spacing6.
            rbind (i64_of (i64_from_u32 (time (block_header prev_block_header)) + spacing6)) (\<lambda>late.
            Inr (i64_from_u32 (time header) > late)))
          else Inr False) (\<lambda>min_difficulty.
      if min_difficulty then
        Inr \<lparr>expected_bits = z_proof_of_work_limit_bits config, prev_block_median_time_past = prev_median\<rparr>
      else
        rbind (u64_try_from_i64 (pow_averaging_window config)) (\<lambda>divisor.
        rbind (u256_div total_target (u256_from (ucast divisor))) (\<lambda>average_target.
        rbind (zcash_calculate_next_work_required config average_target prev_median first_median) (\<lambda>expected.
        Inr \<lparr>expected_bits = expected, prev_block_median_time_past = prev_median\<rparr>))))))))"

definition zcash_check_pow :: "host \<Rightarrow> zcash_client \<Rightarrow> zcash_header \<Rightarrow> zcash_ext_header \<Rightarrow> unit result" where
  "zcash_check_pow env s header prev_block_header =
     rbind (zcash_get_next_work_required (zcash_get_config s) header prev_block_header s) (\<lambda>next_work_result.
     req (expected_bits next_work_result = bits header) ''bad-diffbits: incorrect proof of work''
     (req (time header > prev_block_median_time_past next_work_result)
        ''time-too-old: block time is before the median time of the previous block''
     (rbind (checked_add (prev_block_median_time_past next_work_result) MAX_FUTURE_BLOCK_TIME_MTP) (\<lambda>mtp_limit.
      req (time header \<le> mtp_limit)
        ''time-too-far-ahead-of-mtp: block timestamp is too far ahead of median-time-past''
      (rbind (check_not_too_new env (time header) ''time-too-new: block timestamp is too far ahead of local time'') (\<lambda>_.
       req (sint (version header) \<ge> 4) ''bad-version: block version must be at least 4''
       (req (equihash_ok env 200 9 (get_block_header_vec_for_equihash header) (h256_bytes (znonce header)) (solution header))
          ''Invalid Equihash solution'' (Inr ())))))))) "

definition zcash_genesis_check :: "network \<Rightarrow> u64 \<Rightarrow> nat \<Rightarrow> unit result" where
  "zcash_genesis_check n height blocks =
     rbind (if 0 \<le> pow_averaging_window (get_zcash_config n) then Inr (nat (pow_averaging_window (get_zcash_config n)))
            else Inl Unwrap) (\<lambda>window.
     req (MEDIAN_TIME_SPAN + window = blocks - 1) ''ERR_NOT_ENOUGH_BLOCKS_FOR_ZCASH'' (Inr ()))"

definition zcash_submit_block_header :: "host \<Rightarrow> zcash_header \<Rightarrow> bool \<Rightarrow> zcash_client \<Rightarrow> zcash_client result" where
  "zcash_submit_block_header =
     submit_block_header zcash_block_hash zcash_block_hash_pow zcash_into_light zcash_check_pow"

definition zcash :: "(unit zcash_header_ext zcash_light_header_ext, unit zcash_light_header_ext, zcash_header) chain" where
  "zcash = \<lparr>header_hash = zcash_block_hash, into_light = zcash_into_light,
     genesis_check = zcash_genesis_check, genesis_submission = (\<lambda>h. h),
     submit_header = zcash_submit_block_header\<rparr>"

interpretation zec: submission zcash "\<lambda>h. h"
  by (rule submissionI) (simp_all add: zcash_def zcash_submit_block_header_def zcash_into_light_def)

section \<open>Difficulty adjustment\<close>

lemma zcash_config [simp]:
  "pow_averaging_window (get_zcash_config n) = 17"
  "z_pow_target_spacing (get_zcash_config n) = 75"
  by (cases n; simp add: z_pow_target_spacing_def)+

lemma zcash_limit_bound: "val (z_pow_limit (get_zcash_config n)) < 2 ^ 251"
  using val_limits(4,5) by (cases n) simp_all

lemma sdiv_4_bounds: "- (2 ^ 33) \<le> x \<Longrightarrow> x \<le> 2 ^ 33 \<Longrightarrow> - (2 ^ 33) \<le> x sdiv 4 \<and> x sdiv (4 :: int) \<le> 2 ^ 33"
  by (auto simp: signed_divide_int_def sgn_if abs_if)

text \<open>
  The mean target is divided first and multiplied then, so the factor is no compact target and the
  multiplication may drop its carry: the result is exact or too small by \<open>2 ^ 128\<close>.
\<close>

lemma zcash_retarget:
  fixes last_median first_median :: u32
  defines "d \<equiv> i64_from_u32 last_median - i64_from_u32 first_median"
  defines "span \<equiv> clamp 1071 1683 (1275 + (d - 1275) sdiv 4)"
  assumes limit: "val average \<le> val (z_pow_limit (get_zcash_config n))"
  shows "\<exists>x carry. zcash_calculate_next_work_required (get_zcash_config n) average last_median first_median = target_to_bits x \<and>
    carry \<le> 1 \<and> carry * B128 \<le> val average div 1275 * nat span \<and>
    val x = min (val (z_pow_limit (get_zcash_config n))) (val average div 1275 * nat span - carry * B128)"
proof -
  let ?l = "z_pow_limit (get_zcash_config n)"
  have b: "- (2 ^ 32) \<le> d" "d \<le> 2 ^ 32"
    using i64_from_u32_bounds [of last_median] i64_from_u32_bounds [of first_median] by (simp_all add: d_def)
  then have d: "i64_of d = Inr d" "i64_of (d - 1275) = Inr (d - 1275)" by (simp_all add: i64_of_def)
  have m0: "i64_of (1275 + (d - 1275) sdiv 4) = Inr (1275 + (d - 1275) sdiv 4)"
    using sdiv_4_bounds [of "d - 1275"] b by (simp add: i64_of_def)
  have cl: "(if 1683 < (if x < 1071 then 1071 else x) then 1683 else if x < 1071 then 1071 else x) = clamp 1071 1683 x" for x
    by (simp add: clamp_def)
  have span: "1071 \<le> span" "span \<le> 1683" using clamp_bounds [of 1071 1683] by (simp_all add: span_def)
  obtain m where m: "u64_try_from_i64 span = Inr m" "unat m = nat span" using u64_of_nat_i64 [of span] span by auto
  obtain k where k: "u64_try_from_i64 1275 = Inr k" "unat k = 1275" using u64_of_nat_i64 [of 1275] by auto
  from k(2) have "unat k \<noteq> 0" by simp
  from u256_div_by_u64 [OF this, of average] obtain q where
    q: "u256_div average (u256_from (ucast k)) = Inr q" "val q = val average div 1275" using k(2) by auto
  obtain p over where p: "u256_overflowing_mul q m = (p, over)" by fastforce
  have "val average \<le> 2 ^ 251" using limit zcash_limit_bound [of n] by linarith
  then have "val q \<le> 2 ^ 251 div 1275" unfolding q(2) by (rule div_le_mono)
  then have "val q * unat m \<le> (2 ^ 251 div 1275) * 1683" using m(2) span by (intro mult_le_mono) auto
  then have "val q * unat m < B256" by simp
  from mul_no_overflow [OF this] have no: "\<not> over" by (simp add: p)
  have e: "val q * unat m = val p + lost_carry q m * B128" using val_overflowing_mul_error [of q m] no by (simp add: p)
  have "zcash_calculate_next_work_required (get_zcash_config n) average last_median first_median =
      target_to_bits (if p > ?l then ?l else p)"
    unfolding zcash_calculate_next_work_required_def zcash_timespans Let_def d_def [symmetric] d rbind_simps m0 cl
    by (simp add: k(1) q(1) m(1) p no span_def [symmetric] split del: if_split)
  moreover have "val p = val average div 1275 * nat span - lost_carry q m * B128"
    using e by (simp add: q(2) m(2))
  moreover have "lost_carry q m * B128 \<le> val average div 1275 * nat span" using e by (simp add: q(2) m(2))
  ultimately show ?thesis using lost_carry_le_1 [of q m]
    by (intro exI [of _ "if p > ?l then ?l else p"] exI [of _ "lost_carry q m"]) (simp only: val_limit)
qed

context block_lookup
begin

lemma averaging_loop_chain:
  assumes "main_chain s c" "n \<le> i" "i < length c"
    and "val tot + (\<Sum>k < n. target_val (bits (block_header (c ! (i - k))))) < B256" "length ts = MEDIAN_TIME_SPAN"
  shows "\<exists>t ts'. averaging_loop (get_prev s) n j (c ! i) tot ts = Inr (t, ts', c ! (i - n)) \<and>
    val t = val tot + (\<Sum>k < n. target_val (bits (block_header (c ! (i - k))))) \<and> length ts' = MEDIAN_TIME_SPAN \<and>
    (\<forall>m < MEDIAN_TIME_SPAN. ts' ! m = (if j \<le> m \<and> m < j + n then time (block_header (c ! (i + j - m))) else ts ! m))"
  using assms(2-5)
proof (induction n arbitrary: i j tot ts)
  case (Suc n)
  then obtain i' where i': "i = Suc i'" "n \<le> i'" "i' < length c" by (cases i) auto
  let ?tv = "\<lambda>k. target_val (bits (block_header (c ! (i - k))))"
  have shift: "(\<Sum>k < Suc n. ?tv k) = ?tv 0 + (\<Sum>k < n. target_val (bits (block_header (c ! (i' - k)))))"
    by (simp add: sum.lessThan_Suc_shift i'(1) del: sum.lessThan_Suc)
  define sm where "sm = fst (u256_overflowing_add tot (target_from_bits (bits (block_header (c ! i)))))"
  have "val tot + ?tv 0 < B256" using Suc.prems(3) unfolding shift by linarith
  then have "\<not> snd (u256_overflowing_add tot (target_from_bits (bits (block_header (c ! i)))))"
    by (simp only: val_overflowing_add(2) val_target_from_bits) (simp add: not_le)
  then have add: "u256_overflowing_add tot (target_from_bits (bits (block_header (c ! i)))) = (sm, False)"
    by (simp add: sm_def prod_eq_iff)
  then have sum: "val sm = val tot + ?tv 0"
    by (simp add: u256_overflowing_add_eq val_target_from_bits)
  let ?ts = "if j < MEDIAN_TIME_SPAN then ts[j := time (block_header (c ! i))] else ts"
  have step: "averaging_loop (get_prev s) (Suc n) j (c ! i) tot ts = averaging_loop (get_prev s) n (Suc j) (c ! i') sm ?ts"
    using add prev_on_chain [OF assms(1), of i'] Suc.prems(2) i'(1) by (simp add: Let_def)
  have "val sm + (\<Sum>k < n. target_val (bits (block_header (c ! (i' - k))))) < B256"
    using Suc.prems(3) unfolding shift sum by (simp add: add.assoc)
  moreover have "length ?ts = MEDIAN_TIME_SPAN" using Suc.prems(4) by simp
  ultimately obtain t ts' where
    t: "averaging_loop (get_prev s) n (Suc j) (c ! i') sm ?ts = Inr (t, ts', c ! (i' - n))"
      "val t = val sm + (\<Sum>k < n. target_val (bits (block_header (c ! (i' - k)))))" "length ts' = MEDIAN_TIME_SPAN" and
    ts': "\<And>m. m < MEDIAN_TIME_SPAN \<Longrightarrow> ts' ! m =
      (if Suc j \<le> m \<and> m < Suc j + n then time (block_header (c ! (i' + Suc j - m))) else ?ts ! m)"
    using Suc.IH [OF i'(2,3), of sm ?ts "Suc j"] by blast
  have "val t = val tot + (\<Sum>k < Suc n. ?tv k)" unfolding shift using t(2) sum by (simp add: add.assoc)
  moreover have "ts' ! m = (if j \<le> m \<and> m < j + Suc n then time (block_header (c ! (i + j - m))) else ts ! m)"
    if "m < MEDIAN_TIME_SPAN" for m
    using ts' [OF that] that Suc.prems(4) i'(1) by (cases "m = j") (auto simp: nth_list_update)
  ultimately show ?case using t(1,3) step i'(1) by (intro exI [of _ t] exI [of _ ts']) simp
qed auto

end

text \<open>
  On a main chain that reaches far enough back, the required difficulty exists and follows from the mean
  of the last 17 targets and the medians of the times of blocks 1 to 11 and 18 to 28.
\<close>

definition mean_target :: "'a ext_header list \<Rightarrow> nat \<Rightarrow> nat" where
  "mean_target c i = (\<Sum>k < 17. target_val (bits (block_header (c ! (i - k))))) div 17"

lemma mean_target_le:
  assumes "\<forall>x \<in> set c. target_val (bits (block_header x)) \<le> l" "i < length c"
  shows "(\<Sum>k < 17. target_val (bits (block_header (c ! (i - k))))) \<le> 17 * l" "mean_target c i \<le> l"
proof -
  have "(\<Sum>k < 17. target_val (bits (block_header (c ! (i - k))))) \<le> (\<Sum>k < 17 :: nat. l)"
    using assms by (intro sum_mono) auto
  then show le: "(\<Sum>k < 17. target_val (bits (block_header (c ! (i - k))))) \<le> 17 * l" by simp
  then show "mean_target c i \<le> l" unfolding mean_target_def using div_le_mono [OF le, of 17] by simp
qed

lemma zcash_next_work:
  assumes main: "has_main_chain s c" and i: "28 \<le> i" "i < length c"
    and targets: "\<forall>x \<in> set c. target_val (bits (block_header x)) \<le> val (z_pow_limit (get_zcash_config Mainnet))"
  shows "\<exists>average. val average = mean_target c i \<and>
    zcash_get_next_work_required (get_zcash_config Mainnet) header (c ! i) s =
      rbind (zcash_calculate_next_work_required (get_zcash_config Mainnet) average (median_at c i) (median_at c (i - 17)))
        (\<lambda>expected. Inr \<lparr>expected_bits = expected, prev_block_median_time_past = median_at c i\<rparr>)"
proof -
  let ?l = "val (z_pow_limit (get_zcash_config Mainnet))"
  have "17 * ?l < B256" using zcash_limit_bound [of Mainnet] by simp
  then have "val u256_ZERO + (\<Sum>k < 17. target_val (bits (block_header (c ! (i - k))))) < B256"
    using mean_target_le(1) [OF targets i(2)] by (simp only: val_consts add_0_left le_less_trans)
  moreover have "length (replicate MEDIAN_TIME_SPAN (0 :: u32)) = MEDIAN_TIME_SPAN" by simp
  ultimately obtain t ts where
    loop: "averaging_loop (get_prev_header s) 17 0 (c ! i) u256_ZERO (replicate MEDIAN_TIME_SPAN 0) = Inr (t, ts, c ! (i - 17))"
      "val t = (\<Sum>k < 17. target_val (bits (block_header (c ! (i - k)))))" "length ts = MEDIAN_TIME_SPAN" and
    ts: "\<And>m. m < MEDIAN_TIME_SPAN \<Longrightarrow> ts ! m = time (block_header (c ! (i - m)))"
    using client_getter.averaging_loop_chain [OF main, of 17 i u256_ZERO "replicate MEDIAN_TIME_SPAN 0" 0] i
    by (auto simp: val_consts MEDIAN_TIME_SPAN_def)
  have "ts = map (\<lambda>k. time (block_header (c ! (i - k)))) [0 ..< 11]"
    using loop(3) ts by (intro nth_equalityI) (simp_all add: MEDIAN_TIME_SPAN_def)
  then have prev_median: "median_of ts = median_at c i" by (simp add: median_at_def)
  have first: "collect_times (get_prev_header s) MEDIAN_TIME_SPAN (c ! (i - 17)) =
      Inr (map (\<lambda>k. time (block_header (c ! (i - 17 - k)))) [0 ..< 11], c ! (i - 17 - 11))"
    unfolding MEDIAN_TIME_SPAN_def using i by (intro client_getter.collect_times_chain [OF main]) auto
  obtain k where k: "u64_try_from_i64 17 = Inr k" "unat k = 17" using u64_of_nat_i64 [of 17] by auto
  then have "unat k \<noteq> 0" by simp
  from u256_div_by_u64 [OF this, of t] obtain average where
    average: "u256_div t (u256_from (ucast k)) = Inr average" "val average = mean_target c i"
    using loop(2) k(2) by (auto simp: mean_target_def)
  have "zcash_get_next_work_required (get_zcash_config Mainnet) header (c ! i) s =
      rbind (zcash_calculate_next_work_required (get_zcash_config Mainnet) average (median_at c i) (median_at c (i - 17)))
        (\<lambda>expected. Inr \<lparr>expected_bits = expected, prev_block_median_time_past = median_at c i\<rparr>)"
    unfolding zcash_get_next_work_required_def Let_def
    using loop(1) by (simp add: first k(1) average(1) prev_median median_at_def [of c "i - 17"])
  then show ?thesis using average(2) by blast
qed

section \<open>Accepted headers\<close>

lemma zcash_accepted:
  assumes "zcash_submit_block_header env header False s = Inr s'"
  obtains p r where "headers_pool s (prev_block_hash header) = Some p"
    "zcash_get_next_work_required (zcash_get_config s) header p s = Inr r" "expected_bits r = bits header"
    "prev_block_median_time_past r < time header"
    "unat (time header) \<le> unat (prev_block_median_time_past r) + 5400"
    "unat (time header) \<le> unat (block_timestamp_ms env) div 1000 + 7200"
    "sint (version header) \<ge> 4"
    "equihash_ok env 200 9 (get_block_header_vec_for_equihash header) (h256_bytes (znonce header)) (solution header)"
    "pow_ok (zcash_block_hash_pow env header) (bits header)"
  using assms unfolding zcash_submit_block_header_def
proof (rule submit_block_header_Inr)
  fix p e
  assume p: "headers_pool s (prev_block_hash (zcash_into_light header)) = Some p"
    and "\<not> False \<Longrightarrow> zcash_check_pow env s header p = Inr () \<and> pow_ok (zcash_block_hash_pow env header) (bits header)"
  then have check: "zcash_check_pow env s header p = Inr ()" and pow: "pow_ok (zcash_block_hash_pow env header) (bits header)"
    by auto
  have limit: "unat (time header) \<le> unat m + 5400"
    if "checked_add m MAX_FUTURE_BLOCK_TIME_MTP = Inr l" "time header \<le> l" for m l
    using that by (simp add: checked_add_Inr word_le_nat_alt MAX_FUTURE_BLOCK_TIME_MTP_def)
  from check obtain r where
    "zcash_get_next_work_required (zcash_get_config s) header p s = Inr r" "expected_bits r = bits header"
    "prev_block_median_time_past r < time header" "unat (time header) \<le> unat (prev_block_median_time_past r) + 5400"
    "unat (time header) \<le> unat (block_timestamp_ms env) div 1000 + 7200" "sint (version header) \<ge> 4"
    "equihash_ok env 200 9 (get_block_header_vec_for_equihash header) (h256_bytes (znonce header)) (solution header)"
    unfolding zcash_check_pow_def by (auto simp: rbind_Inr req_Inr check_not_too_new_Inr dest: limit)
  then show thesis using that [of p r] p pow by (simp add: zcash_into_light_def)
qed

end
