(* ===== verification/Scenario.thy ===== *)
theory Scenario
  imports Bitcoin Litecoin Dogecoin Zcash
begin

text \<open>
  A concrete run of the contract, on which the hypotheses of the properties hold: an environment with a
  simple hash (a header hashes to its time), linked Bitcoin headers, a fork of two blocks whose
  second is harder to mine, and the states of a contract that stores them. The properties of the
  development are instantiated here and in the root theory.
\<close>

section \<open>The environment\<close>

definition sc_sha :: "u8 list \<Rightarrow> u8 list" where
  "sc_sha bs = (if length bs = 80 then take 4 (drop 68 bs) @ replicate 28 0
     else if length bs = 1487 then take 4 (drop 100 bs) @ replicate 28 0
     else if length bs = 64 then map (\<lambda>b. b + 1) (take 32 bs)
     else bs)"

definition sc_host :: host where
  "sc_host = \<lparr>sha256 = sc_sha, scrypt = (\<lambda>bs. replicate 32 0), equihash_ok = (\<lambda>n k i nc s. True),
     hex_encode = map (\<lambda>b. char_of (unat b)), hex_decode = (\<lambda>cs. Some (map (\<lambda>c. word_of_nat (of_char c)) cs)),
     parse_coinbase = (\<lambda>bs. None), block_timestamp_ms = 1000000, is_paused = (\<lambda>f. False),
     caller_has_role = (\<lambda>r. False), is_trusted_relayer = True, is_self_call = True, state_exists = False,
     acl_init_super_admin = True, attached_deposit = 1000, storage_byte_cost = 1, loop_gas = 100\<rparr>"

lemma sc_host_simps [simp]:
  "sha256 sc_host = sc_sha" "block_timestamp_ms sc_host = 1000000" "is_paused sc_host f = False"
  "is_trusted_relayer sc_host" "is_self_call sc_host" "\<not> state_exists sc_host" "acl_init_super_admin sc_host"
  "loop_gas sc_host = 100" "attached_deposit sc_host = 1000" "storage_byte_cost sc_host = 1"
  "scrypt sc_host bs = replicate 32 0" "equihash_ok sc_host n k i nc sol"
  by (simp_all add: sc_host_def)

definition sc_hash :: "nat \<Rightarrow> h256" where
  "sc_hash n = H256 (to_le_bytes_w (word_of_nat n :: u32) @ replicate 28 0)"

lemma sc_hash_length [simp]: "length (h256_bytes (sc_hash n)) = 32"
  by (simp add: sc_hash_def)

lemma sc_hash_inj: "n < 2 ^ 32 \<Longrightarrow> m < 2 ^ 32 \<Longrightarrow> sc_hash n = sc_hash m \<Longrightarrow> n = m"
proof -
  assume "sc_hash n = sc_hash m"
  then have "to_le_bytes_w (word_of_nat n :: u32) = to_le_bytes_w (word_of_nat m :: u32)" by (simp add: sc_hash_def)
  then have "(from_le_bytes_w (to_le_bytes_w (word_of_nat n :: u32)) :: u32) =
      from_le_bytes_w (to_le_bytes_w (word_of_nat m :: u32))" by simp
  then have "(word_of_nat n :: u32) = word_of_nat m" by (simp add: from_to_le_bytes_w)
  moreover assume "n < 2 ^ 32" "m < 2 ^ 32"
  then have "unat (word_of_nat n :: u32) = n" "unat (word_of_nat m :: u32) = m"
    by (simp_all add: unat_of_nat)
  ultimately show ?thesis by metis
qed

definition sc_origin :: h256 where "sc_origin = H256 (replicate 32 255)"

lemma sc_origin_neq: "sc_hash n \<noteq> sc_origin"
  by (auto simp: sc_hash_def sc_origin_def append_eq_conv_conj dest: arg_cong [of _ _ last])

definition sc_root :: h256 where "sc_root = H256 (replicate 32 1)"

definition sc_header :: "h256 \<Rightarrow> nat \<Rightarrow> u32 \<Rightarrow> btc_header" where
  "sc_header prev n b = \<lparr>version = 4, prev_block_hash = prev, merkle_root = sc_root, time = word_of_nat n,
     bits = b, nonce = 0\<rparr>"

lemma sc_header_simps [simp]:
  "version (sc_header p n b) = 4" "prev_block_hash (sc_header p n b) = p" "merkle_root (sc_header p n b) = sc_root"
  "time (sc_header p n b) = word_of_nat n" "bits (sc_header p n b) = b"
  by (simp_all add: sc_header_def)

lemma sc_block_hash:
  assumes "length (h256_bytes p) = 32"
  shows "btc_block_hash sc_host (sc_header p n b) = sc_hash n"
proof -
  let ?v = "btc_get_block_header_vec (sc_header p n b)"
  have len: "length ?v = 80" using assms by (simp add: btc_get_block_header_vec_def sc_root_def)
  have "take 4 (drop 68 ?v) = to_le_bytes_w (word_of_nat n :: u32)"
    using assms by (simp add: btc_get_block_header_vec_def sc_root_def)
  then have "sc_sha ?v = to_le_bytes_w (word_of_nat n :: u32) @ replicate 28 0" by (simp add: sc_sha_def len)
  then show ?thesis by (simp add: btc_block_hash_def double_sha256_def sc_sha_def sc_hash_def)
qed

section \<open>Blocks of a main chain and of a fork\<close>

abbreviation sc_easy :: u32 where "sc_easy \<equiv> 0x1d00ffff"
abbreviation sc_hard :: u32 where "sc_hard \<equiv> 0x1c00ffff"

lemma sc_targets: "target_val sc_easy = 65535 * 2 ^ 208" "target_val sc_hard = 65535 * 2 ^ 200"
  by (simp_all add: target_val_def expt_def mant_def Let_def)

lemma sc_work: "block_work sc_easy = 4295032833" "block_work sc_hard = 1099528405248"
  by (simp_all add: block_work_def sc_targets)

definition sc_block :: "h256 \<Rightarrow> nat \<Rightarrow> u32 \<Rightarrow> nat \<Rightarrow> nat \<Rightarrow> btc_ext_header" where
  "sc_block prev n b w h = \<lparr>block_header = sc_header prev n b, block_hash = sc_hash n,
     chain_work = U256 0 (word_of_nat w), block_height = word_of_nat h\<rparr>"

definition sc_main :: "nat \<Rightarrow> btc_ext_header" where
  "sc_main k = sc_block (if k = 0 then sc_origin else sc_hash (k - 1)) k sc_easy (Suc k * 4295032833) k"

definition sc_fork1 :: btc_ext_header where "sc_fork1 = sc_block (sc_hash 0) 5001 sc_easy (2 * 4295032833) 1"

definition sc_fork2 :: btc_ext_header where
  "sc_fork2 = sc_block (sc_hash 5001) 5002 sc_hard (2 * 4295032833 + 1099528405248) 2"

lemma sc_block_simps [simp]:
  "block_header (sc_block p n b w h) = sc_header p n b" "block_hash (sc_block p n b w h) = sc_hash n"
  "w < 2 ^ 128 \<Longrightarrow> val (chain_work (sc_block p n b w h)) = w"
  "h < 2 ^ 64 \<Longrightarrow> unat (block_height (sc_block p n b w h)) = h"
  by (simp_all add: sc_block_def val_def unat_of_nat)

definition sc_headers :: "(h256 \<times> btc_header) set" where
  "sc_headers = (\<lambda>e. (block_hash e, block_header e)) ` (insert sc_fork1 (insert sc_fork2 (sc_main ` {..< 4100})))"

lemma sc_headers_cases:
  assumes "(h, x) \<in> sc_headers"
  obtains n p b where "n < 6000" "h = sc_hash n" "x = sc_header p n b"
    "p = (if n = 0 then sc_origin else if n = 5001 then sc_hash 0 else sc_hash (n - 1))"
    "b = (if n = 5002 then sc_hard else sc_easy)"
proof -
  from assms consider "(h, x) = (sc_hash 5001, sc_header (sc_hash 0) 5001 sc_easy)"
    | "(h, x) = (sc_hash 5002, sc_header (sc_hash 5001) 5002 sc_hard)"
    | k where "k < 4100" "(h, x) = (sc_hash k, sc_header (if k = 0 then sc_origin else sc_hash (k - 1)) k sc_easy)"
    by (auto simp: sc_headers_def sc_main_def sc_fork1_def sc_fork2_def split: if_splits)
  then show thesis
  proof cases
    case 1
    then show thesis by (intro that [of 5001]) auto
  next
    case 2
    then show thesis by (intro that [of 5002]) auto
  next
    case (3 k)
    then show thesis by (intro that [of k]) auto
  qed
qed

lemma sc_collision_free: "collision_free sc_headers (sc_main 0)"
  unfolding collision_free_def
proof (intro conjI)
  show "(block_hash (sc_main 0), block_header (sc_main 0)) \<in> sc_headers" by (auto simp: sc_headers_def)
  show "single_valued sc_headers"
  proof (rule single_valuedI)
    fix h x y assume x: "(h, x) \<in> sc_headers" and y: "(h, y) \<in> sc_headers"
    obtain n p b where n: "n < 6000" "h = sc_hash n" "x = sc_header p n b"
        "p = (if n = 0 then sc_origin else if n = 5001 then sc_hash 0 else sc_hash (n - 1))"
        "b = (if n = 5002 then sc_hard else sc_easy)" by (rule sc_headers_cases [OF x])
    obtain m q d where m: "m < 6000" "h = sc_hash m" "y = sc_header q m d"
        "q = (if m = 0 then sc_origin else if m = 5001 then sc_hash 0 else sc_hash (m - 1))"
        "d = (if m = 5002 then sc_hard else sc_easy)" by (rule sc_headers_cases [OF y])
    have "sc_hash n = sc_hash m" using n(2) m(2) by simp
    then have "n = m" using n(1) m(1) by (intro sc_hash_inj) auto
    with n m show "x = y" by (simp only: if_True if_False)
  qed
  show "\<forall>(h, x) \<in> sc_headers. h \<noteq> prev_block_hash (block_header (sc_main 0))"
    by (auto elim!: sc_headers_cases simp: sc_main_def sc_origin_neq)
qed

section \<open>States\<close>

text \<open>A client that stores the first \<open>k + 1\<close> blocks of the main chain.\<close>

primrec sc_client :: "nat \<Rightarrow> btc_client" where
  "sc_client 0 = (store_block_header (sc_main 0)
     \<lparr>mainchain_height_to_header = Map.empty, mainchain_header_to_height = Map.empty,
      mainchain_tip_blockhash = h256_default, mainchain_initial_blockhash = h256_default, headers_pool = Map.empty,
      skip_pow_verification = False, gc_threshold = 5, network = Mainnet\<rparr>)
     \<lparr>mainchain_initial_blockhash := block_hash (sc_main 0), mainchain_tip_blockhash := block_hash (sc_main 0)\<rparr>"
| "sc_client (Suc k) = (store_block_header (sc_main (Suc k)) (sc_client k))
     \<lparr>mainchain_tip_blockhash := block_hash (sc_main (Suc k))\<rparr>"

definition sc_chain :: "nat \<Rightarrow> btc_ext_header list" where "sc_chain k = map sc_main [0 ..< Suc k]"

lemma sc_chain_simps [simp]:
  "length (sc_chain k) = Suc k" "last (sc_chain k) = sc_main k" "hd (sc_chain k) = sc_main 0"
  "i \<le> k \<Longrightarrow> sc_chain k ! i = sc_main i"
proof -
  show "length (sc_chain k) = Suc k" "last (sc_chain k) = sc_main k" by (simp_all add: sc_chain_def)
  show "hd (sc_chain k) = sc_main 0" by (simp add: sc_chain_def upt_conv_Cons del: upt_Suc)
  show "i \<le> k \<Longrightarrow> sc_chain k ! i = sc_main i" by (simp add: sc_chain_def del: upt_Suc)
qed

lemma sc_main_work: "k < 4100 \<Longrightarrow> val (chain_work (sc_main k)) = Suc k * 4295032833"
  by (simp add: sc_main_def)

lemma sc_child:
  assumes "Suc k < 4100"
  shows "child_block sc_headers (sc_main k) (sc_main (Suc k))"
  using assms sc_main_work [of k] sc_main_work [of "Suc k"]
  by (auto simp: child_block_def sc_headers_def sc_work) (simp_all add: sc_main_def sc_work)

lemma sc_inv: "k < 4100 \<Longrightarrow> chain_inv sc_headers (sc_main 0) (sc_chain k) (sc_client k)"
proof (induction k)
  case 0
  then show ?case by (simp add: sc_chain_def chain_inv_start)
next
  case (Suc k)
  then have inv: "chain_inv sc_headers (sc_main 0) (sc_chain k) (sc_client k)" by simp
  have "sc_chain (Suc k) = sc_chain k @ [sc_main (Suc k)]" by (simp add: sc_chain_def)
  then show ?case using inner_extend [OF sc_collision_free inv, of "sc_main (Suc k)"] sc_child [of k] Suc.prems by simp
qed

lemma sc_settings [simp]: "gc_threshold (sc_client k) = 5" "network (sc_client k) = Mainnet"
  "skip_pow_verification (sc_client k) = False"
  by (induction k) (simp_all add: store_block_header_def)

section \<open>Initialisation\<close>

definition sc_args :: "u64 \<Rightarrow> btc_header init_args" where
  "sc_args height = \<lparr>genesis_block_hash = sc_hash 0, genesis_block_height = height, arg_skip_pow_verification = False,
     arg_gc_threshold = 100, arg_network = Mainnet, submit_blocks_arg = map (\<lambda>k. block_header (sc_main k)) [0 ..< 12]\<rparr>"

definition sc_genesis :: "nat \<Rightarrow> btc_ext_header" where "sc_genesis height = sc_block sc_origin 0 sc_easy 4295032833 height"

lemma sc_main_header: "block_header (sc_main k) = sc_header (if k = 0 then sc_origin else sc_hash (k - 1)) k sc_easy"
  by (simp add: sc_main_def)

lemma sc_main_hash: "btc_block_hash sc_host (block_header (sc_main k)) = sc_hash k"
  unfolding sc_main_header by (rule sc_block_hash) (simp add: sc_origin_def)

lemma sc_genesis_collision_free: "collision_free sc_headers (sc_genesis h)"
  using sc_collision_free by (simp add: collision_free_def sc_main_def sc_genesis_def)

lemma sc_headers_12: "[0 ..< 12] = [0, 1, 2, 3, 4, 5, 6, 7, 8, 9, 10, 11 :: nat]"
  by (simp add: upt_rec)

lemma sc_good_args:
  assumes "header_hash C = btc_block_hash" "into_light C = btc_into_light" "genesis_check C Mainnet h 12 = Inr ()"
    and "unat h < 2 ^ 32"
  shows "good_init_args C sc_host (sc_args h)"
proof -
  have "hash_linked C sc_host (map (\<lambda>k. block_header (sc_main k)) [0 ..< 12])"
    unfolding sc_headers_12 using assms(1,2) by (simp add: sc_main_hash) (simp add: sc_main_header btc_into_light_def)
  moreover have "total_work (map (\<lambda>k. block_header (sc_main k)) [0 ..< 12]) < B256"
    unfolding sc_headers_12 by (simp add: total_work_def sc_main_header sc_work)
  moreover have "hd (map (\<lambda>k. block_header (sc_main k)) [0 ..< 12]) = block_header (sc_main 0)"
    unfolding sc_headers_12 by simp
  ultimately show ?thesis
    using assms by (simp add: good_init_args_def sc_args_def sc_main_hash del: upt_Suc upt_rec_numeral)
qed

lemma sc_genesis_of:
  assumes "header_hash C = btc_block_hash" "into_light C = btc_into_light" "unat h < 2 ^ 32"
  shows "genesis_of C sc_host (sc_args h) = Inr (sc_genesis (unat h))"
proof -
  obtain w where w: "work_from_bits sc_easy = Inr w" "val w = 4295032833" using work_from_bits_total [of sc_easy] sc_work by auto
  have "w = U256 0 4295032833" using w(2) by (simp add: val_inject [symmetric] val_def)
  then show ?thesis
    using assms(1,2) w(1) unfolding genesis_of_def sc_args_def sc_headers_12
    by (simp add: sc_main_hash) (simp add: sc_main_header sc_genesis_def sc_block_def btc_into_light_def)
qed

lemma sc_main_in: "k < 4100 \<Longrightarrow> (sc_hash k, block_header (sc_main k)) \<in> sc_headers"
  unfolding sc_headers_def by (rule image_eqI [of _ _ "sc_main k"]) (simp_all add: sc_main_def)

lemma sc_reachable:
  assumes "submission C header_of" "header_hash C = btc_block_hash" "into_light C = btc_into_light"
    and "genesis_check C Mainnet h 12 = Inr ()" "unat h < 2 ^ 32" "\<And>x. header_of (genesis_submission C x) = x"
  shows "\<exists>s. reachable C header_of sc_headers (sc_genesis (unat h)) s"
proof -
  from submission.init_total [OF assms(1) sc_good_args [OF assms(2-5)]] obtain s where
    "init C sc_host (sc_args h) = Inr s" by blast
  moreover have "\<forall>x \<in> set (submit_blocks_arg (sc_args h)). entry C header_of sc_host (genesis_submission C x) \<in> sc_headers"
    using assms(2,3,6) by (auto simp: entry_def sc_args_def sc_main_hash btc_into_light_def sc_main_in)
  ultimately show ?thesis using sc_genesis_of [OF assms(2,3,5)] by (blast intro: reachable.init)
qed

lemma sc_reachable_btc: "\<exists>s. reachable bitcoin (\<lambda>h. h) sc_headers (sc_genesis 0) s"
  using sc_reachable [OF btc.submission_axioms, of 0]
  by (simp add: bitcoin_def btc_genesis_check_def MEDIAN_TIME_SPAN_def)

lemma sc_reachable_ltc: "\<exists>s. reachable litecoin (\<lambda>h. h) sc_headers (sc_genesis 2015) s"
  using sc_reachable [OF ltc.submission_axioms, of 2015]
  by (simp add: litecoin_def ltc_genesis_check_def checked_add_def MEDIAN_TIME_SPAN_def)

lemma sc_reachable_doge: "\<exists>s. reachable dogecoin fst sc_headers (sc_genesis 0) s"
  using sc_reachable [OF doge.submission_axioms, of 0]
  by (simp add: dogecoin_def doge_genesis_check_def checked_add_def MEDIAN_TIME_SPAN_def)

section \<open>A Zcash chain\<close>

definition zc_prev :: "nat \<Rightarrow> h256" where "zc_prev k = (if k = 0 then sc_origin else sc_hash (k - 1))"

definition zc_header :: "nat \<Rightarrow> zcash_header" where
  "zc_header k = \<lparr>version = 4, prev_block_hash = zc_prev k, merkle_root = sc_root, time = word_of_nat k, bits = sc_easy,
     block_commitments = sc_root, znonce = sc_root, solution = replicate 1344 0\<rparr>"

lemma zc_block_hash: "zcash_block_hash sc_host (zc_header k) = sc_hash k"
proof -
  let ?v = "zcash_get_block_header_vec (zc_header k)"
  have p: "length (h256_bytes (zc_prev k)) = 32" by (simp add: zc_prev_def sc_origin_def)
  have len: "length ?v = 1487" using p by (simp add: zcash_get_block_header_vec_def zc_header_def sc_root_def)
  have "take 4 (drop 100 ?v) = to_le_bytes_w (word_of_nat k :: u32)"
    using p by (simp add: zcash_get_block_header_vec_def zc_header_def sc_root_def)
  then have "sc_sha ?v = to_le_bytes_w (word_of_nat k :: u32) @ replicate 28 0" by (simp add: sc_sha_def len)
  then show ?thesis by (simp add: zcash_block_hash_def double_sha256_def sc_sha_def sc_hash_def)
qed

definition zc_headers :: "(h256 \<times> zcash_light_header) set" where
  "zc_headers = (\<lambda>k. (sc_hash k, zcash_into_light (zc_header k))) ` {..< 29}"

definition zc_genesis :: zcash_ext_header where
  "zc_genesis = \<lparr>block_header = zcash_into_light (zc_header 0), block_hash = sc_hash 0,
     chain_work = U256 0 4295032833, block_height = 0\<rparr>"

definition zc_args :: "zcash_header init_args" where
  "zc_args = \<lparr>genesis_block_hash = sc_hash 0, genesis_block_height = 0, arg_skip_pow_verification = False,
     arg_gc_threshold = 100, arg_network = Mainnet, submit_blocks_arg = map zc_header [0 ..< 29]\<rparr>"

lemma zc_collision_free: "collision_free zc_headers zc_genesis"
  unfolding collision_free_def
proof (intro conjI)
  show "(block_hash zc_genesis, block_header zc_genesis) \<in> zc_headers" by (auto simp: zc_headers_def zc_genesis_def)
  show "single_valued zc_headers"
  proof (rule single_valuedI)
    fix h x y assume "(h, x) \<in> zc_headers" "(h, y) \<in> zc_headers"
    then obtain n m where n: "n < 29" "h = sc_hash n" "x = zcash_into_light (zc_header n)"
      and m: "m < 29" "h = sc_hash m" "y = zcash_into_light (zc_header m)" by (auto simp: zc_headers_def)
    have "sc_hash n = sc_hash m" using n(2) m(2) by simp
    then have "n = m" using n(1) m(1) by (intro sc_hash_inj) auto
    with n(3) m(3) show "x = y" by simp
  qed
  show "\<forall>(h, x) \<in> zc_headers. h \<noteq> prev_block_hash (block_header zc_genesis)"
    by (auto simp: zc_headers_def zc_genesis_def zcash_into_light_def zc_header_def zc_prev_def sc_origin_neq)
qed

lemma hash_linked_map:
  "(\<And>k. prev_block_hash (into_light C (f (Suc k))) = header_hash C env (f k)) \<Longrightarrow> hash_linked C env (map f [i ..< i + n])"
proof (induction n arbitrary: i)
  case (Suc n)
  have "[i ..< i + Suc n] = i # [Suc i ..< Suc i + n]" by (simp add: upt_conv_Cons del: upt_Suc)
  moreover have "hash_linked C env (map f [Suc i ..< Suc i + n])" using Suc by blast
  ultimately show ?case using Suc.prems [of i]
    by (cases n) (auto simp: upt_conv_Cons simp del: upt_Suc)
qed simp

lemma zc_good_args: "good_init_args zcash sc_host zc_args"
proof -
  have "hash_linked zcash sc_host (map zc_header [0 ..< 0 + 29])"
    by (rule hash_linked_map) (simp add: zcash_def zc_block_hash zcash_into_light_def, simp add: zc_header_def zc_prev_def)
  moreover have "total_work (map zc_header [0 ..< 29]) = 29 * 4295032833"
    by (simp add: total_work_def zc_header_def comp_def sc_work sum_list_triv)
  moreover have "hd (map zc_header [0 ..< 29]) = zc_header 0" by (simp add: upt_rec)
  ultimately show ?thesis
    by (simp add: good_init_args_def zc_args_def zc_block_hash zcash_def zcash_genesis_check_def MEDIAN_TIME_SPAN_def
        del: upt_rec_numeral)
qed

lemma zc_genesis_of: "genesis_of zcash sc_host zc_args = Inr zc_genesis"
proof -
  obtain w where w: "work_from_bits sc_easy = Inr w" "val w = 4295032833" using work_from_bits_total [of sc_easy] sc_work by auto
  have w0: "w = U256 0 4295032833" using w(2) by (simp add: val_inject [symmetric] val_def)
  have "map zc_header [0 ..< 29] = zc_header 0 # map zc_header [Suc 0 ..< 29]" by (simp add: upt_conv_Cons del: upt_rec_numeral)
  then show ?thesis
    using w w0 unfolding genesis_of_def zc_args_def
    by (simp add: zcash_def zc_block_hash zc_genesis_def) (simp add: zc_header_def)
qed

lemma zc_reachable: "\<exists>s. reachable zcash (\<lambda>h. h) zc_headers zc_genesis s"
proof -
  from zec.init_total [OF zc_good_args] obtain s where "init zcash sc_host zc_args = Inr s" by blast
  moreover have "\<forall>x \<in> set (submit_blocks_arg zc_args). entry zcash (\<lambda>h. h) sc_host (genesis_submission zcash x) \<in> zc_headers"
    by (auto simp: entry_def zc_args_def zcash_def zc_block_hash zc_headers_def)
  ultimately show ?thesis using zc_genesis_of by (blast intro: reachable.init)
qed

section \<open>States with a fork, and of the Zcash contract\<close>

definition sc_forked :: btc_client where "sc_forked = store_fork_header sc_fork1 (sc_client 2)"

lemma sc_fork_child: "child_block sc_headers (sc_main 0) sc_fork1" "child_block sc_headers sc_fork1 sc_fork2"
  by (simp_all add: child_block_def sc_headers_def sc_work) (simp_all add: sc_fork1_def sc_fork2_def sc_main_def sc_work)

lemma sc_forked_inv: "chain_inv sc_headers (sc_main 0) (sc_chain 2) sc_forked"
  unfolding sc_forked_def
proof (rule store_fork_chain(5) [OF sc_collision_free sc_inv])
  show "accepted sc_headers (sc_main 0) (sc_main 0)" by (rule accepted.genesis)
  show "child_block sc_headers (sc_main 0) sc_fork1" by (rule sc_fork_child)
  show "chain_work sc_fork1 \<le> chain_work (last (sc_chain 2))"
    by (simp add: val_le sc_main_work) (simp add: sc_fork1_def)
qed simp

lemma sc_fork_stored: "headers_pool sc_forked (block_hash sc_fork1) = Some sc_fork1"
  by (simp add: sc_forked_def store_fork_fields)

lemma sc_fork_not_main: "sc_fork1 \<notin> set (sc_chain k)" if "k < 4100"
proof
  assume "sc_fork1 \<in> set (sc_chain k)"
  then obtain m where "m < Suc k" "sc_fork1 = sc_main m" by (auto simp: sc_chain_def simp del: upt_Suc)
  then have "sc_hash 5001 = sc_hash m" by (metis sc_fork1_def sc_main_def sc_block_simps(2))
  then show False using sc_hash_inj [of 5001 m] \<open>m < Suc k\<close> that by simp
qed

definition zc_block :: "nat \<Rightarrow> zcash_ext_header" where
  "zc_block k = \<lparr>block_header = zcash_into_light (zc_header k), block_hash = sc_hash k,
     chain_work = U256 0 (word_of_nat (Suc k * 4295032833)), block_height = word_of_nat k\<rparr>"

primrec zc_client :: "nat \<Rightarrow> zcash_client" where
  "zc_client 0 = (store_block_header (zc_block 0)
     \<lparr>mainchain_height_to_header = Map.empty, mainchain_header_to_height = Map.empty,
      mainchain_tip_blockhash = h256_default, mainchain_initial_blockhash = h256_default, headers_pool = Map.empty,
      skip_pow_verification = False, gc_threshold = 100, network = Mainnet\<rparr>)
     \<lparr>mainchain_initial_blockhash := block_hash (zc_block 0), mainchain_tip_blockhash := block_hash (zc_block 0)\<rparr>"
| "zc_client (Suc k) = (store_block_header (zc_block (Suc k)) (zc_client k))
     \<lparr>mainchain_tip_blockhash := block_hash (zc_block (Suc k))\<rparr>"

definition zc_chain :: "nat \<Rightarrow> zcash_ext_header list" where "zc_chain k = map zc_block [0 ..< Suc k]"

lemma zc_genesis_block: "zc_genesis = zc_block 0"
  by (simp add: zc_genesis_def zc_block_def)

lemma zc_block_simps [simp]:
  "block_header (zc_block k) = zcash_into_light (zc_header k)" "block_hash (zc_block k) = sc_hash k"
  "k < 29 \<Longrightarrow> val (chain_work (zc_block k)) = Suc k * 4295032833"
  "k < 29 \<Longrightarrow> unat (block_height (zc_block k)) = k"
proof -
  show "block_header (zc_block k) = zcash_into_light (zc_header k)" "block_hash (zc_block k) = sc_hash k"
    by (simp_all add: zc_block_def)
  have "unat (word_of_nat (Suc k * 4295032833) :: u128) = Suc k * 4295032833" if "k < 29"
    by (rule unat_of_nat_small) (use that in simp)
  then show "k < 29 \<Longrightarrow> val (chain_work (zc_block k)) = Suc k * 4295032833" by (simp add: zc_block_def val_def)
  show "k < 29 \<Longrightarrow> unat (block_height (zc_block k)) = k" by (simp add: zc_block_def unat_of_nat)
qed

lemma zc_child:
  assumes "Suc k < 29"
  shows "child_block zc_headers (zc_block k) (zc_block (Suc k))"
proof -
  have "(sc_hash (Suc k), zcash_into_light (zc_header (Suc k))) \<in> zc_headers" using assms by (auto simp: zc_headers_def)
  moreover have "bits (zcash_into_light (zc_header (Suc k))) = sc_easy"
    "prev_block_hash (zcash_into_light (zc_header (Suc k))) = sc_hash k"
    by (simp_all add: zcash_into_light_def zc_header_def zc_prev_def)
  ultimately show ?thesis using assms by (simp add: child_block_def sc_work)
qed

lemma zc_inv: "k < 29 \<Longrightarrow> chain_inv zc_headers (zc_block 0) (zc_chain k) (zc_client k)"
proof (induction k)
  case 0
  have "zc_chain 0 = [zc_block 0]" by (simp add: zc_chain_def)
  then show ?case by (simp add: chain_inv_start [where g = "zc_block 0", simplified])
next
  case (Suc k)
  then have inv: "chain_inv zc_headers (zc_block 0) (zc_chain k) (zc_client k)" by simp
  have "zc_chain (Suc k) = zc_chain k @ [zc_block (Suc k)]" "last (zc_chain k) = zc_block k" by (simp_all add: zc_chain_def)
  then show ?case using inner_extend [OF zc_collision_free [unfolded zc_genesis_block] inv, of "zc_block (Suc k)"]
      zc_child [of k] Suc.prems by simp
qed

lemma sc_main_chain: "k < 4100 \<Longrightarrow> has_main_chain (sc_client k) (sc_chain k)"
  unfolding has_main_chain_def using sc_collision_free sc_inv by blast

lemma zc_main_chain: "k < 29 \<Longrightarrow> has_main_chain (zc_client k) (zc_chain k)"
  unfolding has_main_chain_def using zc_collision_free [unfolded zc_genesis_block] zc_inv by blast

text \<open>The fork overtakes the main chain with its second block.\<close>

lemma sc_fork_path: "sc_main 0 \<in> set (sc_chain 2)" "linked (sc_main 0 # [sc_fork1] @ [sc_fork2])"
  "\<forall>w \<in> set [sc_fork1]. headers_pool sc_forked (block_hash w) = Some w" "set [sc_fork1] \<inter> set (sc_chain 2) = {}"
  "length [sc_fork1] < loop_gas sc_host"
proof -
  show "sc_main 0 \<in> set (sc_chain 2)" by (simp add: sc_chain_def)
  show "linked (sc_main 0 # [sc_fork1] @ [sc_fork2])" using sc_fork_child by (simp add: child_block_def)
qed (simp_all add: sc_fork_stored sc_fork_not_main)

lemma sc_fork_heavier: "chain_work (last (sc_chain 2)) < chain_work sc_fork2"
  by (simp add: val_lt sc_main_work) (simp add: sc_fork2_def)

lemma sc_switch: "\<exists>s'. submit_block_header_inner sc_host sc_fork2 sc_fork1 sc_forked = Inr s'"
  by (rule inner_total [OF sc_collision_free sc_forked_inv sc_fork_stored sc_fork_child(2) sc_fork_path])

lemma sc_good_btc_args: "good_init_args bitcoin sc_host (sc_args 0)"
  by (rule sc_good_args) (simp_all add: bitcoin_def btc_genesis_check_def MEDIAN_TIME_SPAN_def)

section \<open>Transactions\<close>

text \<open>Two transactions with the root of the blocks above, and proofs for the second.\<close>

definition sc_txs :: "h256 list" where "sc_txs = [H256 (replicate 32 0), H256 (replicate 32 7)]"

definition sc_proof :: "u64 \<Rightarrow> proof_args" where
  "sc_proof n = \<lparr>tx_id = sc_txs ! 1, tx_block_blockhash = sc_hash 2, tx_index = 1, merkle_proof = [sc_txs ! 0],
     confirmations = n\<rparr>"

definition sc_fork_proof :: proof_args where
  "sc_fork_proof = (sc_proof 1)\<lparr>tx_block_blockhash := block_hash sc_fork1\<rparr>"

definition sc_proof_v2 :: proof_args_v2 where
  "sc_proof_v2 = \<lparr>tx_id = sc_txs ! 1, tx_block_blockhash = sc_hash 2, tx_index = 1, merkle_proof = [sc_txs ! 0],
     confirmations = 3, coinbase_tx_id = sc_txs ! 0, coinbase_merkle_proof = [sc_txs ! 1]\<rparr>"

lemma sc_pair: "length a = 32 \<Longrightarrow> length b = 32 \<Longrightarrow> compute_hash sc_host (H256 a) (H256 b) = H256 (map (\<lambda>x. x + 1) a)"
  by (simp add: compute_hash_def double_sha256_def sc_sha_def)

lemma sc_pair_root [simp]: "compute_hash sc_host (sc_txs ! 0) (sc_txs ! Suc 0) = sc_root"
  by (simp add: sc_txs_def sc_pair sc_root_def)

lemma sc_path: "path_root sc_host (sc_txs ! 1) 1 [sc_txs ! 0] = sc_root"
  by simp

lemma sc_tx_root: "merkle_root_calculator sc_host sc_txs = Inr sc_root"
  by (simp add: sc_txs_def merkle_root_calculator.simps [of sc_host "_ # _"] sc_pair sc_root_def)

lemma sc_fork_off: "\<forall>x \<in> set (sc_chain 2). block_hash x \<noteq> tx_block_blockhash sc_fork_proof"
proof
  fix x assume "x \<in> set (sc_chain 2)"
  then obtain m where "m < 3" "x = sc_main m" by (auto simp: sc_chain_def)
  then show "block_hash x \<noteq> tx_block_blockhash sc_fork_proof"
    using sc_hash_inj [of m 5001] by (auto simp: sc_main_def sc_fork_proof_def sc_fork1_def)
qed

lemma sc_tree_pairs: "tree_pairs sc_host sc_txs = [(sc_txs ! 0, sc_txs ! 1)]"
  by (simp add: sc_txs_def tree_pairs.simps [of sc_host "_ # _"] pad_even_def)

lemma sc_v2_simps:
  "path_pairs sc_host (sc_txs ! 1) 1 [sc_txs ! 0] = [(sc_txs ! 0, sc_txs ! 1)]"
  "path_pairs sc_host (sc_txs ! 0) 0 [sc_txs ! 1] = [(sc_txs ! 0, sc_txs ! 1)]"
  by simp_all

lemma sc_v2_pairs:
  "collision_free_pairs sc_host (path_pairs sc_host (sc_txs ! 1) 1 [sc_txs ! 0] @ tree_pairs sc_host sc_txs)"
  "collision_free_pairs sc_host (path_pairs sc_host (sc_txs ! 1) 1 [sc_txs ! 0] @
     path_pairs sc_host (sc_txs ! 0) 0 [sc_txs ! 1] @ tree_pairs sc_host sc_txs)"
  "no_inner_node sc_host (sc_txs ! 0) (path_pairs sc_host (sc_txs ! 0) 0 [sc_txs ! 1] @ tree_pairs sc_host sc_txs)"
  unfolding sc_v2_simps sc_tree_pairs
  by (simp_all add: collision_free_pairs_def no_inner_node_def) (simp add: sc_txs_def sc_root_def)

lemma sc_v1_accepted: "verify_transaction_inclusion sc_host (sc_client 4) (sc_proof 3) = Inr True"
  using verify_on_chain [OF sc_collision_free sc_inv, of 4 2 "sc_proof 3" sc_host]
  by (simp add: sc_proof_def sc_main_def sc_path)

lemma sc_v2_accepted: "verify_transaction_inclusion_v2 sc_host (sc_client 4) sc_proof_v2 = Inr True"
proof -
  have "headers_pool (sc_client 4) (sc_hash 2) = Some (sc_main 2)"
  proof -
    have "sc_main 2 \<in> set (sc_chain 4)" "block_hash (sc_main 2) = sc_hash 2"
      unfolding sc_chain_def by simp (simp add: sc_main_def)
    then show ?thesis using chain_invD(5) [OF sc_inv [of 4], of "sc_main 2"] by simp
  qed
  moreover have "compute_root_from_merkle_proof sc_host (sc_txs ! 0) (0 :: usize) [sc_txs ! 1] = sc_root" by simp
  moreover have "proof_args_from_v2 sc_proof_v2 = sc_proof 3"
    by (simp add: proof_args_from_v2_def sc_proof_v2_def sc_proof_def)
  ultimately show ?thesis using sc_v1_accepted
    by (simp add: verify_transaction_inclusion_v2_def pause_guard_def sc_proof_v2_def sc_main_def)
qed

end
