(* ===== verification/Rule_Scenario.thy ===== *)
theory Rule_Scenario
  imports Scenario
begin

unbundle bit_operations_syntax

text \<open>
  Concrete headers that pass the consensus rules on the chains of \<open>Scenario\<close>: the next Bitcoin header, a
  merge-mined Dogecoin block with its proof, and a Zcash header with the difficulty its rule requires.
\<close>

section \<open>The consensus rules on these chains\<close>

lemma sc_main_height: "k < 4100 \<Longrightarrow> unat (block_height (sc_main k)) = k"
  by (simp add: sc_main_def)

lemma sc_time: "time (block_header (sc_main k)) = word_of_nat k"
  by (simp add: sc_main_header)

lemma sc_bits: "bits (block_header (sc_main k)) = sc_easy"
  by (simp add: sc_main_header)

lemma sc_main_fields: "block_hash (sc_main k) = sc_hash k" "version (block_header (sc_main k)) = 4"
  "0 < k \<Longrightarrow> prev_block_hash (block_header (sc_main k)) = sc_hash (k - 1)"
  "btc_block_hash_pow sc_host (block_header (sc_main k)) = sc_hash k"
  using sc_main_hash [of k] by (simp_all add: sc_main_def btc_block_hash_def btc_block_hash_pow_def)

lemma sc_median: "median_at (sc_chain 11) 11 = 6"
  by (simp add: median_at_def median_of_def sc_time upt_rec word_le_nat_alt)

lemma sc_limit:
  "65535 * 2 ^ 208 \<le> val (pow_limit (get_bitcoin_config n))" "65535 * 2 ^ 208 \<le> val (pow_limit (get_litecoin_config n))"
  "65535 * 2 ^ 208 \<le> val (pow_limit (get_dogecoin_config n))" "65535 * 2 ^ 208 \<le> val (z_pow_limit (get_zcash_config Mainnet))"
  by (simp_all add: val_limits del: get_bitcoin_config.simps get_litecoin_config.simps get_dogecoin_config.simps get_zcash_config.simps)

lemma le_val_zeros [simp]: "le_val (replicate n 0) = 0"
  by (induction n) simp_all

lemma sc_pow: "val (u256_from_le_bytes (h256_bytes (sc_hash k))) = k mod 2 ^ 32"
proof -
  have "unat (word_of_nat k :: u32) = k mod 2 ^ 32" by (simp add: unat_of_nat)
  then show ?thesis
    by (simp add: val_from_le_bytes) (simp add: sc_hash_def le_val_append to_le_bytes_w_def le_val_le_bytes)
qed

lemma sc_next_rules:
  "btc_get_next_work_required 100 (btc_get_config (sc_client 11)) header (sc_main 11) (sc_client 11) = Inr sc_easy"
  using btc_next_work_mainnet [of "sc_main 11" 100 header "sc_client 11"]
  by (simp add: btc_get_config_def sc_main_height sc_bits del: get_bitcoin_config.simps)

lemma zc_targets: "\<forall>x \<in> set (zc_chain k). target_val (bits (block_header x)) = 65535 * 2 ^ 208"
  by (auto simp: zc_chain_def zcash_into_light_def zc_header_def sc_targets)

lemma zc_nth: "i \<le> k \<Longrightarrow> zc_chain k ! i = zc_block i"
  by (simp add: zc_chain_def del: upt_Suc)

lemma zc_mean: "mean_target (zc_chain 28) 28 = 65535 * 2 ^ 208"
  by (simp add: mean_target_def zc_nth zcash_into_light_def zc_header_def sc_targets)

lemma zc_chain_simps: "length (zc_chain k) = Suc k" "last (zc_chain k) = zc_block k"
  by (simp_all add: zc_chain_def)

lemma zc_medians: "median_at (zc_chain 28) 28 = 23" "median_at (zc_chain 28) 11 = 6"
  by (simp_all add: median_at_def median_of_def zc_nth zcash_into_light_def zc_header_def upt_rec word_le_nat_alt)

section \<open>A merge-mined block\<close>

definition dg_header :: btc_header where
  "dg_header = (sc_header (sc_hash 11) 12 0x1d00e221)\<lparr>version := 0x620104\<rparr>"

definition dg_root :: string where "dg_root = replicate 31 (CHR 0x00) @ [CHR 0x0C]"

definition dg_script :: string where
  "dg_script = MERGED_MINING_HEADER @ dg_root @ CHR 0x01 # replicate 15 (CHR 0x00)"

definition dg_host :: host where
  "dg_host = sc_host\<lparr>parse_coinbase := (\<lambda>bs. Some (sc_root, Some dg_script))\<rparr>"

definition dg_aux :: aux_data where
  "dg_aux = \<lparr>aux_coinbase_tx = [], aux_merkle_proof = [], aux_chain_merkle_proof = [], aux_chain_id = 0,
     aux_parent_block = sc_header sc_origin 0 sc_easy\<rparr>"

lemma dg_host_simps [simp]:
  "sha256 dg_host = sc_sha" "hex_encode dg_host = map (\<lambda>b. char_of (unat b))" "scrypt dg_host bs = replicate 32 0"
  "hex_decode dg_host cs = Some (map (\<lambda>c. word_of_nat (of_char c)) cs)" "block_timestamp_ms dg_host = 1000000"
  "parse_coinbase dg_host bs = Some (sc_root, Some dg_script)" "loop_gas dg_host = 100"
  by (simp_all add: dg_host_def sc_host_def)

lemma dg_hash: "btc_block_hash dg_host dg_header = sc_hash 12"
proof -
  let ?v = "btc_get_block_header_vec dg_header"
  have len: "length ?v = 80" by (simp add: btc_get_block_header_vec_def sc_root_def dg_header_def)
  have "take 4 (drop 68 ?v) = to_le_bytes_w (12 :: u32)"
    by (simp add: btc_get_block_header_vec_def sc_root_def dg_header_def)
  then have "sc_sha ?v = to_le_bytes_w (12 :: u32) @ replicate 28 0" by (simp add: sc_sha_def len)
  then show ?thesis by (simp add: btc_block_hash_def double_sha256_def sc_sha_def sc_hash_def)
qed

lemma dg_root_string: "h256_to_string dg_host (sc_hash 12) = dg_root"
  unfolding dg_root_def by (simp add: h256_to_string_def sc_hash_def) code_simp

lemma dg_find:
  "str_find dg_root dg_script = Some 8" "str_find MERGED_MINING_HEADER dg_script = Some 0"
  "str_find MERGED_MINING_HEADER (drop 8 dg_script) = None" "length dg_root = 32" "length dg_script = 56"
  "length MERGED_MINING_HEADER = 8"
  by code_simp+

lemma dg_numbers: "script_u32 dg_host dg_script 40 = Inr 1" "script_u32 dg_host dg_script 48 = Inr 0"
proof -
  have "byte_slice dg_script 40 48 = CHR 0x01 # replicate 7 (CHR 0x00)" "byte_slice dg_script 48 56 = replicate 8 (CHR 0x00)"
    by code_simp+
  then show "script_u32 dg_host dg_script 40 = Inr 1" "script_u32 dg_host dg_script 48 = Inr 0"
    by (simp_all add: script_u32_def from_le_bytes_w_def numeral_eq_Suc)
qed

lemma dg_fields: "version dg_header = 0x620104" "bits dg_header = 0x1d00e221" "time dg_header = 12"
  "prev_block_hash dg_header = sc_hash 11" "get_chain_id dg_header = 0x62" "version dg_header AND 0x100 \<noteq> 0"
  "get_chain_id (sc_header p n b) = 0"
  by (simp_all add: dg_header_def get_chain_id_def)

lemma dg_index: "get_expected_index 0 0x62 0 = Inr 0"
  by code_simp

lemma dg_pow: "pow_ok (scrypt_block_hash_pow dg_host h) b"
  by (simp add: pow_ok_def scrypt_block_hash_pow_def val_le val_from_le_bytes)

lemma dg_aux_simps: "aux_coinbase_tx dg_aux = []" "aux_merkle_proof dg_aux = []" "aux_chain_merkle_proof dg_aux = []"
  "aux_chain_id dg_aux = 0" "aux_parent_block dg_aux = sc_header sc_origin 0 sc_easy"
  by (simp_all add: dg_aux_def)

lemma dg_checked: "check_aux dg_host (sc_client 11) dg_header dg_aux = Inr ()"
proof -
  have f: "(0x620104 :: i32) AND 0x100 \<noteq> 0" "(0x62 :: i32) \<noteq> 0" "8 + 32 = (40 :: nat)" "40 + 8 = (48 :: nat)"
    "16 \<le> 56 - (40 :: nat)" "push_bit 0 1 = (1 :: u32)" by simp_all
  show ?thesis
    unfolding check_aux_def Let_def dg_hash dg_aux_simps doge_get_config_def doge_config get_coinbase_tx_def dg_host_simps
      get_or_simps rbind_simps prod.case compute_root_from_merkle_proof.simps sc_header_simps dg_fields dg_root_string
      dg_find option.case add_0 list.size f
    by (simp only: f dg_numbers dg_index dg_pow rbind_simps req_simps if_False if_True simp_thms le0)
qed

lemma dg_next_target:
  assumes "val x = 65535 * 2 ^ 208 * 53 div 60"
  shows "target_to_bits x = Inr 0x1d00e221"
proof (rule target_to_bits_eqI)
  have "bit_len (val x) = 224"
    using bit_len_le [of "val x" 224] bit_len_le [of "val x" 223] unfolding assms by (simp del: bit_len.simps)
  then have "compact_size (val x) = 28" by (simp add: compact_size_def del: bit_len.simps)
  then show "unat (0x1d00e221 :: u32) = (if 2 ^ 23 \<le> compact_mant (val x) then (compact_size (val x) + 1) * 2 ^ 24 + compact_mant (val x) div 256
     else compact_size (val x) * 2 ^ 24 + compact_mant (val x))"
    unfolding compact_mant_def by (simp add: assms)
qed

lemma dg_submitted: "\<exists>s'. doge_submit_block_header dg_host (dg_header, Some dg_aux) False (sc_client 11) = Inr s'"
proof -
  have prev: "get_prev_header (sc_client 11) dg_header = Inr (sc_main 11)" and tip: "mainchain_tip_blockhash (sc_client 11) = sc_hash 11"
    using chain_invD(7,9) [OF sc_inv [of 11]] by (simp_all add: get_prev_header_def dg_fields sc_main_fields)
  obtain x where "doge_get_next_work_required 100 (get_dogecoin_config Mainnet) dg_header (sc_main 11) (sc_client 11) = target_to_bits x"
      "val x = 65535 * 2 ^ 208 * 53 div 60"
    using doge_next_work_mainnet [OF sc_main_chain, of 11 11 100 dg_header]
    by (auto simp: sc_main_height val_limits sc_time sc_bits sc_targets clamp_def i64_from_u32_def signed_divide_int_def
        simp del: get_dogecoin_config.simps)
  then have work: "doge_get_next_work_required 100 (get_dogecoin_config Mainnet) dg_header (sc_main 11) (sc_client 11) = Inr 0x1d00e221"
    using dg_next_target by simp
  have median: "get_median_time_past (sc_main 11) (get_prev_header (sc_client 11)) = Inr 6"
    using median_at_chain [OF sc_main_chain, of 11 11] by (simp add: sc_median)
  have new: "check_not_too_new dg_host 12 msg = Inr ()" for msg by (simp add: check_not_too_new_Inr)
  have check: "doge_check_pow dg_host (sc_client 11) dg_header (sc_main 11) = Inr ()"
    using work by (simp add: doge_check_pow_def doge_get_config_def median new dg_fields del: get_dogecoin_config.simps)
  have bw: "block_work 0x1d00e221 < 2 ^ 33"
    by (simp add: block_work_def target_val_def expt_def mant_def Let_def)
  obtain w where w: "add_work (chain_work (sc_main 11)) 0x1d00e221 = Inr w"
    using add_work_total [of "chain_work (sc_main 11)" "0x1d00e221"] sc_main_work [of 11] bw by auto
  obtain n where n: "checked_add 1 (block_height (sc_main 11)) = Inr n"
    using checked_suc [of "block_height (sc_main 11)"] sc_main_height [of 11] by auto
  show ?thesis
    unfolding doge_submit_block_header_def Let_def prod.case prev rbind_simps check dg_checked dg_fields w n option.case if_False
    by (rule exI, rule inner_on_tip) (simp_all add: tip sc_main_fields btc_into_light_def dg_fields)
qed


text \<open>A Zcash header on the tip, with the difficulty that the rule requires.\<close>

definition zc_next :: zcash_header where
  "zc_next = (zc_header 29)\<lparr>bits := 0x1d00d709\<rparr>"

lemma zc_next_fields: "bits zc_next = 0x1d00d709" "time zc_next = 29" "version zc_next = 4" "prev_block_hash zc_next = sc_hash 28"
  by (simp_all add: zc_next_def zc_header_def zc_prev_def)

lemma zc_next_hash: "zcash_block_hash_pow sc_host zc_next = sc_hash 29"
proof -
  let ?v = "zcash_get_block_header_vec zc_next"
  have len: "length ?v = 1487" by (simp add: zcash_get_block_header_vec_def zc_next_def zc_header_def zc_prev_def sc_root_def)
  have "take 4 (drop 100 ?v) = to_le_bytes_w (29 :: u32)"
    by (simp add: zcash_get_block_header_vec_def zc_next_def zc_header_def zc_prev_def sc_root_def)
  then have "sc_sha ?v = to_le_bytes_w (29 :: u32) @ replicate 28 0" by (simp add: sc_sha_def len)
  then show ?thesis by (simp add: zcash_block_hash_pow_def double_sha256_def sc_sha_def sc_hash_def)
qed

lemma zc_next_target:
  assumes "carry \<le> 1" "val x = 65535 * 2 ^ 208 div 1275 * 1071 - carry * B128"
  shows "target_to_bits x = Inr 0x1d00d709"
proof (rule target_to_bits_eqI)
  from assms(1) consider "carry = 0" | "carry = 1" by linarith
  then have "bit_len (val x) = 224 \<and> val x div 2 ^ 200 = 0xd70966"
    using bit_len_le [of "val x" 224] bit_len_le [of "val x" 223] unfolding assms(2)
    by cases (simp_all del: bit_len.simps)
  moreover from this have "compact_size (val x) = 28" by (simp add: compact_size_def del: bit_len.simps)
  ultimately show "unat (0x1d00d709 :: u32) = (if 2 ^ 23 \<le> compact_mant (val x) then (compact_size (val x) + 1) * 2 ^ 24 + compact_mant (val x) div 256
     else compact_size (val x) * 2 ^ 24 + compact_mant (val x))"
    unfolding compact_mant_def by (simp del: bit_len.simps)
qed

lemma zc_network: "network (zc_client k) = Mainnet"
  by (induction k) (simp_all add: store_block_header_def)

lemma zc_next_work: "zcash_get_next_work_required (zcash_get_config (zc_client 28)) zc_next (zc_block 28) (zc_client 28) =
    Inr \<lparr>expected_bits = 0x1d00d709, prev_block_median_time_past = 23\<rparr>"
proof -
  obtain average where avg: "val average = 65535 * 2 ^ 208"
    "zcash_get_next_work_required (get_zcash_config Mainnet) zc_next (zc_block 28) (zc_client 28) =
      rbind (zcash_calculate_next_work_required (get_zcash_config Mainnet) average 23 6)
        (\<lambda>expected. Inr \<lparr>expected_bits = expected, prev_block_median_time_past = 23\<rparr>)"
    using zcash_next_work [OF zc_main_chain, of 28 28 zc_next] zc_targets [of 28] sc_limit(4)
    by (auto simp: zc_mean zc_medians zc_nth zc_chain_simps simp del: get_zcash_config.simps)
  have span: "nat (clamp 1071 1683 (1275 + (i64_from_u32 23 - i64_from_u32 6 - 1275) sdiv 4)) = 1071"
    by (simp add: clamp_def i64_from_u32_def signed_divide_int_def)
  have "val average \<le> val (z_pow_limit (get_zcash_config Mainnet))" unfolding avg(1) by (rule sc_limit(4))
  from zcash_retarget [OF this, of 23 6] obtain x carry where
    x: "zcash_calculate_next_work_required (get_zcash_config Mainnet) average 23 6 = target_to_bits x" "carry \<le> 1"
      "val x = min (val (z_pow_limit (get_zcash_config Mainnet))) (65535 * 2 ^ 208 div 1275 * 1071 - carry * B128)"
    unfolding span avg(1) by blast
  have "65535 * 2 ^ 208 div 1275 * 1071 \<le> val (z_pow_limit (get_zcash_config Mainnet))" unfolding val_limits by simp
  then have "val x = 65535 * 2 ^ 208 div 1275 * 1071 - carry * B128" using x(3) by linarith
  from zc_next_target [OF x(2) this] show ?thesis using avg(2) x(1) by (simp add: zcash_get_config_def zc_network)
qed

lemma zc_next_parent: "headers_pool (zc_client 28) (prev_block_hash zc_next) = Some (zc_block 28)"
  using chain_invD(5) [OF zc_inv [of 28], of "zc_block 28"] by (simp add: zc_next_fields zc_chain_def)

lemma zc_submitted: "\<exists>s'. zcash_submit_block_header sc_host zc_next False (zc_client 28) = Inr s'"
proof -
  have light: "prev_block_hash (zcash_into_light zc_next) = sc_hash 28" by (simp add: zcash_into_light_def zc_next_fields)
  have prev: "get_prev_header (zc_client 28) (zcash_into_light zc_next) = Inr (zc_block 28)"
    using zc_next_parent by (simp add: get_prev_header_def light zc_next_fields)
  have tip: "mainchain_tip_blockhash (zc_client 28) = sc_hash 28"
    using chain_invD(7) [OF zc_inv [of 28]] by (simp add: zc_chain_simps)
  have new: "check_not_too_new sc_host 29 msg = Inr ()" for msg by (simp add: check_not_too_new_Inr)
  have mtp: "checked_add 23 MAX_FUTURE_BLOCK_TIME_MTP = Inr 5423" by (simp add: checked_add_def MAX_FUTURE_BLOCK_TIME_MTP_def)
  have check: "zcash_check_pow sc_host (zc_client 28) zc_next (zc_block 28) = Inr ()"
    unfolding zcash_check_pow_def zc_next_work rbind_simps zc_next_fields next_work_result.simps mtp new by simp
  have pow: "pow_ok (zcash_block_hash_pow sc_host zc_next) 0x1d00d709"
    by (simp add: zc_next_hash pow_ok_def val_le val_target_from_bits sc_pow target_val_def expt_def mant_def Let_def)
  have bw: "block_work 0x1d00d709 < 2 ^ 33" by (simp add: block_work_def target_val_def expt_def mant_def Let_def)
  obtain w where w: "add_work (chain_work (zc_block 28)) 0x1d00d709 = Inr w"
    using add_work_total [of "chain_work (zc_block 28)" "0x1d00d709"] bw by auto
  obtain n where n: "checked_add 1 (block_height (zc_block 28)) = Inr n"
    using checked_suc [of "block_height (zc_block 28)"] by auto
  have req: "req (pow_ok (zcash_block_hash_pow sc_host zc_next) 0x1d00d709) msg (Inr ()) = Inr ()" for msg using pow by simp
  show ?thesis
    unfolding zcash_submit_block_header_def submit_block_header_def Let_def prev rbind_simps check zc_next_fields w n if_False req
    by (rule exI, rule inner_on_tip) (simp_all add: tip light)
qed

end
