(* ===== verification/Relayer.thy ===== *)
theory Relayer
  imports Inclusion
begin

text \<open>
  The relayer: \<^verbatim>\<open>relayer/src/main.rs\<close>, \<^verbatim>\<open>adaptive_batch.rs\<close>, \<^verbatim>\<open>config.rs\<close> and the parts of the two clients that
  compute something (\<^verbatim>\<open>bitcoin_client.rs\<close>, \<^verbatim>\<open>near_client.rs\<close>). The RPC calls are parameters: what the Bitcoin
  node answers, what a view call of the contract answers, how a transaction ends. The relayer is built
  in release mode, without overflow checks, so its plain operators wrap. Its state, shared by concurrent tasks, is the first
  height to submit and the sizer of the batches; the tasks interleave at the accesses to either.
\<close>

section \<open>Errors and configuration\<close>

datatype relay_error = Rpc string | Other string | Panicked panic

type_synonym 'a attempt = "relay_error + 'a"

record bitcoin_config =
  bitcoin_endpoint :: string
  node_user :: "string option"
  node_password :: "string option"
  node_headers :: "(string \<times> string) list option"

record near_config =
  near_endpoint :: string
  btc_light_client_account_id :: string
  account_id :: string
  private_key :: string
  near_credentials_path :: "string option"
  transaction_timeout_sec :: u64

record init_config =
  init_network :: network
  num_of_blcoks_to_submit :: u64
  init_gc_threshold :: u64
  init_skip_pow_verification :: bool
  init_height :: u64

record config =
  max_fork_len :: u64
  sleep_time_on_fail_sec :: u64
  sleep_time_on_reach_last_block_sec :: u64
  sleep_time_after_sync_iteration_sec :: u64
  fetch_batch_size :: u64
  submit_batch_size :: u64
  config_min_batch_size :: u64
  bitcoin_conf :: bitcoin_config
  near_conf :: near_config
  init_conf :: "init_config option"

definition default_max_fork_len :: u64 where "default_max_fork_len = 500"
definition default_sleep_time_on_fail_sec :: u64 where "default_sleep_time_on_fail_sec = 30"
definition default_sleep_time_on_reach_last_block_sec :: u64 where "default_sleep_time_on_reach_last_block_sec = 60"
definition default_sleep_time_after_sync_iteration_sec :: u64 where "default_sleep_time_after_sync_iteration_sec = 5"
definition default_fetch_batch_size :: u64 where "default_fetch_batch_size = 150"
definition default_submit_batch_size :: u64 where "default_submit_batch_size = 15"
definition default_min_batch_size :: u64 where "default_min_batch_size = 1"
definition default_transaction_timeout_sec :: u64 where "default_transaction_timeout_sec = 120"

text \<open>The list of what is missing, or nothing.\<close>

definition validate :: "config \<Rightarrow> string list + unit" where
  "validate config =
     (let near = near_conf config;
          has_private_key = (private_key near \<noteq> []);
          has_credentials_file = (near_credentials_path near \<noteq> None);
          missing =
            (if bitcoin_endpoint (bitcoin_conf config) = [] then [''RELAYER_BITCOIN_ENDPOINT (Bitcoin node RPC endpoint)''] else []) @
            (if near_endpoint near = [] then [''RELAYER_NEAR_ENDPOINT (NEAR RPC endpoint)''] else []) @
            (if btc_light_client_account_id near = []
             then [''RELAYER_NEAR_BTC_LIGHT_CLIENT_ACCOUNT_ID (NEAR light client contract account)''] else []) @
            (if \<not> has_private_key \<and> \<not> has_credentials_file
             then [''Either RELAYER_NEAR_PRIVATE_KEY or RELAYER_NEAR_NEAR_CREDENTIALS_PATH must be provided''] else []) @
            (if has_private_key \<and> account_id near = []
             then [''RELAYER_NEAR_ACCOUNT_ID (required when using RELAYER_NEAR_PRIVATE_KEY)''] else [])
      in if missing \<noteq> [] then Inl missing else Inr ())"

text \<open>\<open>built\<close> is what the config crate makes of the file, the environment and the defaults.\<close>

definition load :: "string + config \<Rightarrow> string list + config" where
  "load built =
     (case built of Inl e \<Rightarrow> Inl [e]
      | Inr conf \<Rightarrow> (case validate conf of Inl missing \<Rightarrow> Inl missing | Inr _ \<Rightarrow> Inr conf))"

section \<open>The size of batches\<close>

definition TARGET_GAS_BUDGET :: u64 where "TARGET_GAS_BUDGET = 250000000000000"

record batch_sizer =
  max_batch_size :: u64
  max_fetch_size :: u64
  current_batch_size :: u64
  min_batch_size :: u64
  num_parallel_txs :: u64

definition sizer_new :: "config \<Rightarrow> batch_sizer" where
  "sizer_new config =
     \<lparr>max_batch_size = submit_batch_size config,
      max_fetch_size = fetch_batch_size config,
      current_batch_size = submit_batch_size config,
      min_batch_size = config_min_batch_size config,
      num_parallel_txs = max (if submit_batch_size config = 0 then 1
        else fetch_batch_size config div submit_batch_size config) 1\<rparr>"

definition current_fetch_size :: "batch_sizer \<Rightarrow> u64" where
  "current_fetch_size s = min (current_batch_size s * num_parallel_txs s) (max_fetch_size s)"

definition on_gas_exceeded :: "batch_sizer \<Rightarrow> batch_sizer" where
  "on_gas_exceeded s = s\<lparr>current_batch_size := max (current_batch_size s div 2) (min_batch_size s)\<rparr>"

text \<open>\<open>Ord::clamp\<close> asserts that its bounds are in order.\<close>

definition on_success :: "u64 \<Rightarrow> u64 \<Rightarrow> batch_sizer \<Rightarrow> batch_sizer result" where
  "on_success gas_burnt num_blocks s =
     (if num_blocks = 0 \<or> gas_burnt = 0 then Inr s
      else let gas_per_block = gas_burnt div num_blocks in
        if gas_per_block = 0 then Inr s
        else let optimal = TARGET_GAS_BUDGET div gas_per_block in
          if min_batch_size s > max_batch_size s then Inl AssertFailed
          else let optimal' = (if optimal < min_batch_size s then min_batch_size s
                 else if optimal > max_batch_size s then max_batch_size s else optimal) in
            Inr (if optimal' < current_batch_size s then s\<lparr>current_batch_size := optimal'\<rparr>
              else if optimal' > current_batch_size s then s\<lparr>current_batch_size := optimal'\<rparr>
              else s))"

section \<open>The Bitcoin node\<close>

text \<open>
  The HTTP transport. A request is what it is built from, its headers a map in which a later entry replaces an
  earlier one of the same name; \<open>send\<close> is the call of the HTTP library, which
  fails or returns the status, the text of the body, and the body read as JSON.
\<close>

record transport =
  transport_url :: string
  transport_timeout :: u64
  transport_basic_auth :: "string option"
  transport_headers :: "(string \<times> string) list"

record 'b http_request =
  request_url :: string
  request_timeout :: u64
  request_headers :: "string \<rightharpoonup> string"
  request_body :: 'b

record 'r http_response =
  status_code :: int
  response_text :: "string option"
  response_json :: "string + 'r"

datatype http_error = Minreq string | HttpError int string

definition basic_auth :: "(string \<Rightarrow> string) \<Rightarrow> string \<Rightarrow> string option \<Rightarrow> string" where
  "basic_auth base64 user pass = ''Basic '' @ base64 (user @ '':'' @ (case pass of None \<Rightarrow> [] | Some p \<Rightarrow> p))"

definition transport_new :: "(string \<Rightarrow> string) \<Rightarrow> config \<Rightarrow> transport" where
  "transport_new base64 config =
     (let conf = bitcoin_conf config in
      \<lparr>transport_url = bitcoin_endpoint conf, transport_timeout = 15,
       transport_basic_auth = (case (node_user conf, node_password conf) of
          (Some user, Some password) \<Rightarrow> Some (basic_auth base64 user (Some password))
        | _ \<Rightarrow> None),
       transport_headers = (case node_headers conf of None \<Rightarrow> [] | Some hs \<Rightarrow> hs)\<rparr>)"

definition transport_request :: "transport \<Rightarrow> ('b http_request \<Rightarrow> string + 'r http_response) \<Rightarrow> 'b \<Rightarrow> http_error + 'r" where
  "transport_request t send body =
     (let req = (case transport_basic_auth t of
          Some auth \<Rightarrow> \<lparr>request_url = transport_url t, request_timeout = transport_timeout t,
            request_headers = fold (\<lambda>(key, value) headers. headers(key \<mapsto> value)) (transport_headers t) [''Authorization'' \<mapsto> auth],
            request_body = body\<rparr>
        | None \<Rightarrow> \<lparr>request_url = transport_url t, request_timeout = transport_timeout t,
            request_headers = Map.empty, request_body = body\<rparr>)
      in case send req of
           Inl e \<Rightarrow> Inl (Minreq e)
         | Inr resp \<Rightarrow> (case response_json resp of
             Inr json \<Rightarrow> Inr json
           | Inl minreq_err \<Rightarrow>
               if status_code resp = 200 then Inl (Minreq minreq_err)
               else Inl (HttpError (status_code resp) (case response_text resp of None \<Rightarrow> [] | Some b \<Rightarrow> b))))"

text \<open>What the calls of the node's RPC interface return; the header of a block comes as hexadecimal text.\<close>

record node =
  node_block_count :: "u64 attempt"
  node_block_hash :: "u64 \<Rightarrow> h256 attempt"
  node_header_hex :: "h256 \<Rightarrow> string attempt"

record 'tx relayer_aux_data =
  ra_coinbase_tx :: 'tx
  ra_parent_block_hash :: h256
  ra_merkle_branch :: "h256 list"
  ra_merkle_index :: u32
  ra_chainmerkle_branch :: "h256 list"
  ra_chain_index :: u32
  ra_parent_block :: btc_header

text \<open>
  \<open>encode::deserialize_partial\<close> of the bitcoin crate at the types that occur, with the number of bytes
  that were read; a header comes back as the 80 bytes it serialises to.
\<close>

record 'tx decoders =
  decode_header :: "u8 list \<Rightarrow> (u8 list \<times> nat) option"
  decode_transaction :: "u8 list \<Rightarrow> ('tx \<times> nat) option"
  decode_hash :: "u8 list \<Rightarrow> (h256 \<times> nat) option"
  decode_hashes :: "u8 list \<Rightarrow> (h256 list \<times> nat) option"
  decode_u32 :: "u8 list \<Rightarrow> (u32 \<times> nat) option"

definition decode_at :: "(u8 list \<Rightarrow> ('x \<times> nat) option) \<Rightarrow> u8 list \<Rightarrow> nat \<Rightarrow> ('x \<times> nat) attempt" where
  "decode_at decode bytes cursor =
     (if cursor > length bytes then Inl (Panicked IndexOutOfBounds)
      else case decode (drop cursor bytes) of None \<Rightarrow> Inl (Other ''decode'')
        | Some (x, readed_len) \<Rightarrow> Inr (x, cursor + readed_len))"

definition parse_header :: "(u8 list \<Rightarrow> decode_error + 'h) \<Rightarrow> u8 list \<Rightarrow> 'h attempt" where
  "parse_header from_vec bytes = (case from_vec bytes of Inl _ \<Rightarrow> Inl (Other ''header'') | Inr h \<Rightarrow> Inr h)"

definition parse_hex :: "host \<Rightarrow> string \<Rightarrow> u8 list attempt" where
  "parse_hex env hex = (case hex_decode env hex of None \<Rightarrow> Inl (Other ''hex'') | Some bytes \<Rightarrow> Inr bytes)"

definition get_aux_block_header :: "host \<Rightarrow> 'tx decoders \<Rightarrow> node \<Rightarrow> h256 \<Rightarrow>
    (btc_header \<times> 'tx relayer_aux_data option) attempt" where
  "get_aux_block_header env dec node hash =
     rbind (node_header_hex node hash) (\<lambda>hex.
     if length hex = 160 then
       rbind (parse_hex env hex) (\<lambda>decoded_hex.
       rbind (parse_header btc_from_block_header_vec decoded_hex) (\<lambda>block1.
       Inr (block1, None)))
     else
       rbind (parse_hex env hex) (\<lambda>data_bytes.
       rbind (decode_at (decode_header dec) data_bytes 0) (\<lambda>(block1_bytes, cursor).
       rbind (decode_at (decode_transaction dec) data_bytes cursor) (\<lambda>(coinbase_tx, cursor).
       rbind (decode_at (decode_hash dec) data_bytes cursor) (\<lambda>(parent_block_hash, cursor).
       rbind (decode_at (decode_hashes dec) data_bytes cursor) (\<lambda>(merkle_branch, cursor).
       rbind (decode_at (decode_u32 dec) data_bytes cursor) (\<lambda>(merkle_index, cursor).
       rbind (decode_at (decode_hashes dec) data_bytes cursor) (\<lambda>(chainmerkle_branch, cursor).
       rbind (decode_at (decode_u32 dec) data_bytes cursor) (\<lambda>(chain_index, cursor).
       rbind (decode_at (decode_header dec) data_bytes cursor) (\<lambda>(parent_bytes, _).
       rbind (parse_header btc_from_block_header_vec parent_bytes) (\<lambda>parent_block.
       rbind (parse_header btc_from_block_header_vec block1_bytes) (\<lambda>block1.
       Inr (block1, Some \<lparr>ra_coinbase_tx = coinbase_tx, ra_parent_block_hash = parent_block_hash,
         ra_merkle_branch = merkle_branch, ra_merkle_index = merkle_index,
         ra_chainmerkle_branch = chainmerkle_branch, ra_chain_index = chain_index,
         ra_parent_block = parent_block\<rparr>)))))))))))))"

text \<open>The Zcash build reads the header only.\<close>

definition client_get_block_header :: "host \<Rightarrow> (u8 list \<Rightarrow> decode_error + 'h) \<Rightarrow> node \<Rightarrow> h256 \<Rightarrow> 'h attempt" where
  "client_get_block_header env from_vec node hash =
     rbind (node_header_hex node hash) (\<lambda>hex.
     rbind (parse_hex env hex) (\<lambda>decoded_hex.
     parse_header from_vec decoded_hex))"

definition zcash_get_aux_block_header :: "host \<Rightarrow> node \<Rightarrow> h256 \<Rightarrow>
    (zcash_header \<times> 'tx relayer_aux_data option) attempt" where
  "zcash_get_aux_block_header env node hash =
     rbind (client_get_block_header env zcash_from_block_header_vec node hash) (\<lambda>header. Inr (header, None))"

text \<open>The data of merged mining as the contract takes it.\<close>

definition get_aux_data :: "('tx \<Rightarrow> u8 list) \<Rightarrow> 'tx relayer_aux_data option \<Rightarrow> aux_data option" where
  "get_aux_data serialize aux =
     map_option (\<lambda>a. \<lparr>aux_coinbase_tx = serialize (ra_coinbase_tx a),
       aux_merkle_proof = ra_merkle_branch a,
       aux_chain_merkle_proof = ra_chainmerkle_branch a,
       aux_chain_id = ra_chain_index a,
       aux_parent_block = ra_parent_block a\<rparr>) aux"

definition compute_merkle_proof :: "host \<Rightarrow> h256 list \<Rightarrow> u64 \<Rightarrow> h256 list result" where
  "compute_merkle_proof env txids transaction_position = merkle_proof_calculator env txids transaction_position"

text \<open>
  The functions below work for every chain: \<open>get_aux\<close> is \<open>get_aux_block_header\<close> of the chain, and \<open>hash_of\<close>
  the block hash of its headers.
\<close>

definition get_block_header :: "node \<Rightarrow> (h256 \<Rightarrow> ('h \<times> 'x) attempt) \<Rightarrow> u64 \<Rightarrow> u64 + (u64 \<times> 'h \<times> 'x)" where
  "get_block_header node get_aux current_height =
     (case node_block_hash node current_height of Inl _ \<Rightarrow> Inl current_height
      | Inr hash \<Rightarrow> (case get_aux hash of Inl _ \<Rightarrow> Inl current_height
        | Inr (header, aux) \<Rightarrow> Inr (current_height, header, aux)))"

definition get_block_header_by_height :: "node \<Rightarrow> (h256 \<Rightarrow> ('h \<times> 'x) attempt) \<Rightarrow> u64 \<Rightarrow> 'h attempt" where
  "get_block_header_by_height node get_aux height =
     rbind (node_block_hash node height) (\<lambda>hash. rbind (get_aux hash) (\<lambda>(header, _). Inr header))"

definition get_bitcoin_block_hash_by_height :: "host \<Rightarrow> ('h \<Rightarrow> h256) \<Rightarrow> node \<Rightarrow> (h256 \<Rightarrow> ('h \<times> 'x) attempt) \<Rightarrow>
    u64 \<Rightarrow> string attempt" where
  "get_bitcoin_block_hash_by_height env hash_of node get_aux height =
     rbind (get_block_header_by_height node get_aux height) (\<lambda>header. Inr (h256_to_string env (hash_of header)))"

definition get_block_by_height :: "node \<Rightarrow> (h256 \<Rightarrow> 'block attempt) \<Rightarrow> u64 \<Rightarrow> 'block attempt" where
  "get_block_by_height node get_block height = rbind (node_block_hash node height) get_block"

section \<open>The contract, as the relayer sees it\<close>

text \<open>
  The answers of the view calls the relayer makes, after decoding: the tip, the last hashes as text
  (arguments \<open>n\<close> and \<open>shift_from_the_end\<close>), and the height of a main chain block.
\<close>

record 'a near =
  near_last_block_header :: "'a ext_header attempt"
  near_last_n_blocks_hashes :: "u64 \<Rightarrow> u64 \<Rightarrow> string list attempt"
  near_height_by_block_hash :: "string \<Rightarrow> u64 option attempt"

definition is_block_hash_exists :: "'a near \<Rightarrow> string \<Rightarrow> bool attempt" where
  "is_block_hash_exists near hash = rbind (near_height_by_block_hash near hash) (\<lambda>height. Inr (height \<noteq> None))"

text \<open>
  How these answers come about: a view call with a method name and JSON arguments. \<open>call\<close> is the query of the
  RPC library, the decoders are \<open>serde_json\<close> at the three result types.
\<close>

datatype json = JNumber u64 | JString string

datatype view_kind = CallResult "u8 list" | OtherView

definition submit_view_tx :: "(string \<Rightarrow> (string \<times> json) list \<Rightarrow> view_kind attempt) \<Rightarrow> string \<Rightarrow> (string \<times> json) list \<Rightarrow>
    u8 list attempt" where
  "submit_view_tx call method args =
     rbind (call method args) (\<lambda>kind. case kind of CallResult r \<Rightarrow> Inr r | OtherView \<Rightarrow> Inl (Other ''the view tx fail''))"

definition from_slice :: "(u8 list \<Rightarrow> 'x option) \<Rightarrow> u8 list \<Rightarrow> 'x attempt" where
  "from_slice decode bytes = (case decode bytes of None \<Rightarrow> Inl (Other ''json'') | Some x \<Rightarrow> Inr x)"

record 'a view_decoders =
  decode_ext_header :: "u8 list \<Rightarrow> 'a ext_header option"
  decode_hash_list :: "u8 list \<Rightarrow> string list option"
  decode_height :: "u8 list \<Rightarrow> u64 option option"

definition near_get_last_block_header :: "(string \<Rightarrow> (string \<times> json) list \<Rightarrow> view_kind attempt) \<Rightarrow> 'a view_decoders \<Rightarrow>
    'a ext_header attempt" where
  "near_get_last_block_header call dec =
     rbind (submit_view_tx call ''get_last_block_header'' []) (from_slice (decode_ext_header dec))"

definition near_get_last_n_blocks_hashes :: "(string \<Rightarrow> (string \<times> json) list \<Rightarrow> view_kind attempt) \<Rightarrow> 'a view_decoders \<Rightarrow>
    u64 \<Rightarrow> u64 \<Rightarrow> string list attempt" where
  "near_get_last_n_blocks_hashes call dec n shift_from_the_end =
     rbind (submit_view_tx call ''get_last_n_blocks_hashes''
       [(''skip'', JNumber shift_from_the_end), (''limit'', JNumber n)]) (from_slice (decode_hash_list dec))"

definition near_get_height_by_block_hash :: "(string \<Rightarrow> (string \<times> json) list \<Rightarrow> view_kind attempt) \<Rightarrow> 'a view_decoders \<Rightarrow>
    string \<Rightarrow> u64 option attempt" where
  "near_get_height_by_block_hash call dec hash =
     rbind (submit_view_tx call ''get_height_by_block_hash'' [(''blockhash'', JString hash)]) (from_slice (decode_height dec))"

definition near_of_views :: "(string \<Rightarrow> (string \<times> json) list \<Rightarrow> view_kind attempt) \<Rightarrow> 'a view_decoders \<Rightarrow> 'a near" where
  "near_of_views call dec =
     \<lparr>near_last_block_header = near_get_last_block_header call dec,
      near_last_n_blocks_hashes = near_get_last_n_blocks_hashes call dec,
      near_height_by_block_hash = near_get_height_by_block_hash call dec\<rparr>"

text \<open>The loop that looks for the last common block, newest hash first.\<close>

fun find_common :: "(u64 \<Rightarrow> string attempt) \<Rightarrow> string list \<Rightarrow> u64 \<Rightarrow> u64 attempt" where
  "find_common node_hash [] height = Inl (Other ''The block Height not found'')"
| "find_common node_hash (h # hashes) height =
     rbind (node_hash height) (\<lambda>b. if h = b then Inr height else find_common node_hash hashes (height - 1))"

definition get_last_correct_block_height :: "host \<Rightarrow> 'a near \<Rightarrow> (u64 \<Rightarrow> string attempt) \<Rightarrow> u64 \<Rightarrow> u64 attempt" where
  "get_last_correct_block_height env near node_hash fork_len =
     rbind (near_last_block_header near) (\<lambda>last_block_header.
     let last_block_height = block_height last_block_header in
     rbind (node_hash last_block_height) (\<lambda>h.
     if h = h256_to_string env (block_hash last_block_header) then Inr last_block_height
     else rbind (near_last_n_blocks_hashes near fork_len 1) (\<lambda>hashes.
       find_common node_hash (rev hashes) (last_block_height - 1))))"

section \<open>Fetching blocks\<close>

text \<open>How the task of one height ended: with \<open>get_block_header\<close>'s result, or without one.\<close>

datatype 'x task = Joined "u64 + (u64 \<times> 'x)" | JoinError

fun join_tasks :: "'x task list \<Rightarrow> (u64 \<times> 'x) list \<Rightarrow> u64 option \<Rightarrow> (u64 \<times> 'x) list \<times> u64 option" where
  "join_tasks [] blocks min_failed_height = (blocks, min_failed_height)"
| "join_tasks (Joined (Inr b) # tasks) blocks min_failed_height = join_tasks tasks (blocks @ [b]) min_failed_height"
| "join_tasks (Joined (Inl height) # tasks) blocks min_failed_height =
     join_tasks tasks blocks (Some (case min_failed_height of None \<Rightarrow> height | Some m \<Rightarrow> min m height))"
| "join_tasks (JoinError # tasks) blocks min_failed_height = (blocks, min_failed_height)"

definition fetch_blocks_to_submit :: "(u64 \<Rightarrow> 'x task) \<Rightarrow> u64 \<Rightarrow> u64 \<Rightarrow> (u64 \<times> 'x) list" where
  "fetch_blocks_to_submit run start_height end_height =
     (let (blocks, min_failed_height) = join_tasks (map run (word_range_incl start_height end_height)) [] None;
          sorted = sort_key fst blocks
      in case min_failed_height of None \<Rightarrow> sorted
         | Some m \<Rightarrow> filter (\<lambda>(height, _). height < m) sorted)"

section \<open>Signing and submitting batches\<close>

text \<open>\<open>slice::chunks\<close>; a chunk size of zero is a panic of the caller.\<close>

function chunks :: "nat \<Rightarrow> 'x list \<Rightarrow> 'x list list" where
  "chunks n xs = (if xs = [] \<or> n = 0 then [] else take n xs # chunks n (drop n xs))"
  by pat_completeness auto
termination
  by (relation "measure (\<lambda>(n, xs). length xs)") (auto simp: neq_Nil_conv)

declare chunks.simps [simp del]

text \<open>A transaction that calls one method of the contract.\<close>

record transaction =
  signer_id :: string
  tx_public_key :: string
  tx_nonce :: u64
  receiver_id :: string
  recent_block_hash :: string
  method_name :: string
  method_args :: "u8 list"
  prepaid_gas :: u64
  deposit :: "128 word"

datatype query_kind = AccessKey u64 | OtherKind

record query_response =
  response_kind :: query_kind
  response_block_hash :: string

text \<open>
  The account that signs; \<open>key_query nonce\<close> is the answer to the query that \<open>sign_tx\<close> makes when it is called
  with this nonce, and \<open>sign\<close> the signature of the near crates.
\<close>

record 'tx near_signer =
  signer_account :: string
  signer_key :: string
  contract_account :: string
  key_query :: "u64 option \<Rightarrow> query_response attempt"
  sign :: "transaction \<Rightarrow> 'tx"

definition sign_tx :: "'tx near_signer \<Rightarrow> string \<Rightarrow> u8 list \<Rightarrow> 128 word \<Rightarrow> u64 option \<Rightarrow> 'tx attempt" where
  "sign_tx signer method args near_deposit given_nonce =
     rbind (key_query signer given_nonce) (\<lambda>response.
     rbind (case given_nonce of Some n \<Rightarrow> Inr n
       | None \<Rightarrow> (case response_kind response of AccessKey n \<Rightarrow> Inr (n + 1)
         | OtherKind \<Rightarrow> Inl (Other ''failed to extract current nonce''))) (\<lambda>n.
     Inr (sign signer
       \<lparr>signer_id = signer_account signer, tx_public_key = signer_key signer, tx_nonce = n,
        receiver_id = contract_account signer, recent_block_hash = response_block_hash response,
        method_name = method, method_args = args, prepaid_gas = 300000000000000, deposit = near_deposit\<rparr>)))"

text \<open>
  The account and key come from the credentials file if there is one. Its text is read as JSON, a field is
  printed and its quotation marks are removed; every failure is a panic. The parameters are the file
  system, the JSON library and the parsers of the near crates.
\<close>

record 'key near_client =
  client_account :: string
  client_key :: 'key
  client_contract :: string
  client_timeout :: u64

definition near_client_new :: "(string \<Rightarrow> string option) \<Rightarrow> (string \<Rightarrow> (string \<Rightarrow> string) option) \<Rightarrow> (string \<Rightarrow> 'key option) \<Rightarrow>
    (string \<Rightarrow> string option) \<Rightarrow> near_config \<Rightarrow> 'key near_client result" where
  "near_client_new read_to_string parse_json parse_key parse_account conf =
     rbind (case near_credentials_path conf of
         Some path \<Rightarrow>
           rbind (get_or Unwrap (read_to_string path)) (\<lambda>data.
           rbind (get_or Unwrap (parse_json data)) (\<lambda>res.
           rbind (get_or Unwrap (parse_key (filter (\<lambda>c. c \<noteq> CHR 0x22) (res ''private_key'')))) (\<lambda>key.
           rbind (get_or Unwrap (parse_account (filter (\<lambda>c. c \<noteq> CHR 0x22) (res ''account_id'')))) (\<lambda>account.
           Inr (account, key)))))
       | None \<Rightarrow>
           rbind (get_or Unwrap (parse_account (account_id conf))) (\<lambda>account.
           rbind (get_or Unwrap (parse_key (private_key conf))) (\<lambda>key.
           Inr (account, key)))) (\<lambda>(account, key).
     rbind (get_or Unwrap (parse_account (btc_light_client_account_id conf))) (\<lambda>contract.
     Inr \<lparr>client_account = account, client_key = key, client_contract = contract,
       client_timeout = transaction_timeout_sec conf\<rparr>))"

record 'tx signed_submit =
  first_block_height :: u64
  last_block_height :: u64
  signed_tx :: 'tx

text \<open>
  \<open>to_vec\<close> is the Borsh encoding of the arguments: the headers of the chunk, for Dogecoin with \<open>get_aux_data\<close>
  of each block's data.
\<close>

fun sign_chunks :: "'tx near_signer \<Rightarrow> ('x list \<Rightarrow> u8 list attempt) \<Rightarrow> u64 \<Rightarrow> (u64 \<times> 'x) list list \<Rightarrow>
    'tx signed_submit list attempt" where
  "sign_chunks signer to_vec current_nonce [] = Inr []"
| "sign_chunks signer to_vec current_nonce (chunk # rest) =
     (if chunk = [] then Inl (Other ''No blocks to submit in the current chunk'')
      else rbind (to_vec (map snd chunk)) (\<lambda>args.
        rbind (sign_tx signer ''submit_blocks'' args (5 * 10 ^ 23) (Some current_nonce)) (\<lambda>tx.
        rbind (sign_chunks signer to_vec (current_nonce + 1) rest) (\<lambda>txs.
        Inr (\<lparr>first_block_height = fst (hd chunk), last_block_height = fst (last chunk), signed_tx = tx\<rparr> # txs)))))"

definition sign_submit_blocks :: "query_response attempt \<Rightarrow> 'tx near_signer \<Rightarrow> ('x list \<Rightarrow> u8 list attempt) \<Rightarrow>
    (u64 \<times> 'x) list \<Rightarrow> nat \<Rightarrow> 'tx signed_submit list attempt" where
  "sign_submit_blocks access_key_query_response signer to_vec headers batch_size =
     rbind access_key_query_response (\<lambda>response.
     case response_kind response of
       OtherKind \<Rightarrow> Inl (Other ''failed to extract current nonce'')
     | AccessKey n \<Rightarrow>
         if batch_size = 0 then Inl (Panicked AssertFailed)
         else sign_chunks signer to_vec (n + 1) (chunks batch_size headers))"

text \<open>The status of a transaction: \<open>submit_blocks\<close> polls it until it is known or time is up.\<close>

datatype execution_status = NotStarted | Started | Failure string | SuccessValue "u8 list"

record tx_outcome =
  outcome_status :: execution_status
  transaction_gas_burnt :: u64
  receipts_gas_burnt :: "u64 list"

datatype custom_error = PrevBlockNotFound | GasExceeded_Error | TxExecutionError string

definition parse_submit_blocks_response :: "tx_outcome option \<Rightarrow> custom_error + u64" where
  "parse_submit_blocks_response final_execution_outcome =
     (case final_execution_outcome of
        Some outcome \<Rightarrow>
          (case outcome_status outcome of
             Failure err_str \<Rightarrow>
               if str_find ''PrevBlockNotFound'' err_str \<noteq> None then Inl PrevBlockNotFound
               else if str_find ''Exceeded the maximum amount of gas'' err_str \<noteq> None then Inl GasExceeded_Error
               else Inl (TxExecutionError err_str)
           | _ \<Rightarrow> Inr (transaction_gas_burnt outcome + sum_list (receipts_gas_burnt outcome)))
      | None \<Rightarrow> Inr 0)"

datatype poll = TimeoutOrUnknown | RpcFailure string | Response "tx_outcome option"

text \<open>
  The loop of \<open>submit_blocks\<close> over the answers it gets, each with the seconds since the transaction was
  sent; no result yet is \<open>None\<close>.
\<close>

fun poll_status :: "u64 \<Rightarrow> (u64 \<times> poll) list \<Rightarrow> (custom_error + u64) attempt option" where
  "poll_status timeout [] = None"
| "poll_status timeout ((delta, response) # polls) =
     (if delta > timeout then Some (Inl (Other ''time limit exceeded for the transaction to be recognized''))
      else case response of
        TimeoutOrUnknown \<Rightarrow> poll_status timeout polls
      | RpcFailure err \<Rightarrow> Some (Inl (Rpc err))
      | Response r \<Rightarrow> Some (Inr (parse_submit_blocks_response r)))"

definition near_submit_blocks :: "('tx \<Rightarrow> 'hash attempt) \<Rightarrow> ('hash \<Rightarrow> (u64 \<times> poll) list) \<Rightarrow> u64 \<Rightarrow> 'tx \<Rightarrow>
    (custom_error + u64) attempt option" where
  "near_submit_blocks submit_tx get_tx_status timeout tx =
     (case submit_tx tx of Inl e \<Rightarrow> Some (Inl e) | Inr tx_hash \<Rightarrow> poll_status timeout (get_tx_status tx_hash))"

text \<open>The call of \<open>init\<close>, and the calls of the two inclusion checks, which look at the status once.\<close>

definition near_init_contract :: "'tx near_signer \<Rightarrow> ('tx \<Rightarrow> 'hash attempt) \<Rightarrow> ('hash \<Rightarrow> tx_outcome option attempt) \<Rightarrow>
    u8 list \<Rightarrow> tx_outcome option attempt" where
  "near_init_contract signer submit_tx get_tx_status args =
     rbind (sign_tx signer ''init'' args 0 None) (\<lambda>tx.
     rbind (submit_tx tx) (\<lambda>tx_hash.
     rbind (get_tx_status tx_hash) (\<lambda>response.
     case response of
       Some outcome \<Rightarrow> (case outcome_status outcome of
           Failure err \<Rightarrow> Inl (Other (''Transaction failed with error: '' @ err))
         | _ \<Rightarrow> Inr response)
     | None \<Rightarrow> Inr response)))"

text \<open>\<open>String::from_utf8\<close> and the comparison with the text \<open>true\<close>, on bytes.\<close>

definition cont_byte :: "u8 \<Rightarrow> bool" where "cont_byte b \<longleftrightarrow> 0x80 \<le> b \<and> b \<le> 0xBF"

fun utf8_valid :: "u8 list \<Rightarrow> bool" where
  "utf8_valid [] = True"
| "utf8_valid (a # xs) =
     (if a \<le> 0x7F then utf8_valid xs
      else if 0xC2 \<le> a \<and> a \<le> 0xDF then
        (case xs of b # ys \<Rightarrow> cont_byte b \<and> utf8_valid ys | _ \<Rightarrow> False)
      else if 0xE0 \<le> a \<and> a \<le> 0xEF then
        (case xs of b # c # ys \<Rightarrow> cont_byte b \<and> cont_byte c \<and> (a = 0xE0 \<longrightarrow> 0xA0 \<le> b) \<and> (a = 0xED \<longrightarrow> b \<le> 0x9F) \<and> utf8_valid ys
         | _ \<Rightarrow> False)
      else if 0xF0 \<le> a \<and> a \<le> 0xF4 then
        (case xs of b # c # d # ys \<Rightarrow> cont_byte b \<and> cont_byte c \<and> cont_byte d \<and> (a = 0xF0 \<longrightarrow> 0x90 \<le> b) \<and>
           (a = 0xF4 \<longrightarrow> b \<le> 0x8F) \<and> utf8_valid ys
         | _ \<Rightarrow> False)
      else False)"

definition parse_verify_response :: "tx_outcome option \<Rightarrow> bool attempt" where
  "parse_verify_response final_execution_outcome =
     (case final_execution_outcome of
        None \<Rightarrow> Inl (Other ''No final execution outcome'')
      | Some outcome \<Rightarrow>
          (case outcome_status outcome of
             SuccessValue v \<Rightarrow> if utf8_valid v then Inr (v = [0x74, 0x72, 0x75, 0x65]) else Inl (Other ''utf8'')
           | Failure err \<Rightarrow> Inl (Other (''Transaction failed with error: '' @ err))
           | _ \<Rightarrow> Inl (Other ''Transaction status'')))"

definition near_verify_transaction_inclusion :: "'tx near_signer \<Rightarrow> ('tx \<Rightarrow> 'hash attempt) \<Rightarrow>
    ('hash \<Rightarrow> tx_outcome option attempt) \<Rightarrow> (proof_args \<Rightarrow> u8 list attempt) \<Rightarrow>
    h256 \<Rightarrow> u64 \<Rightarrow> h256 \<Rightarrow> h256 list \<Rightarrow> u64 \<Rightarrow> bool attempt" where
  "near_verify_transaction_inclusion signer submit_tx get_tx_status to_vec
       transaction_hash transaction_position transaction_block_blockhash proof n_confirmations =
     rbind (to_vec \<lparr>tx_id = transaction_hash, tx_block_blockhash = transaction_block_blockhash,
       tx_index = transaction_position, merkle_proof = proof, confirmations = n_confirmations\<rparr>) (\<lambda>args.
     rbind (sign_tx signer ''verify_transaction_inclusion'' args 0 None) (\<lambda>tx.
     rbind (submit_tx tx) (\<lambda>tx_hash.
     rbind (get_tx_status tx_hash) parse_verify_response)))"

definition near_verify_transaction_inclusion_v2 :: "'tx near_signer \<Rightarrow> ('tx \<Rightarrow> 'hash attempt) \<Rightarrow>
    ('hash \<Rightarrow> tx_outcome option attempt) \<Rightarrow> (proof_args_v2 \<Rightarrow> u8 list attempt) \<Rightarrow>
    h256 \<Rightarrow> u64 \<Rightarrow> h256 \<Rightarrow> h256 list \<Rightarrow> h256 \<Rightarrow> h256 list \<Rightarrow> u64 \<Rightarrow> bool attempt" where
  "near_verify_transaction_inclusion_v2 signer submit_tx get_tx_status to_vec
       transaction_hash transaction_position transaction_block_blockhash proof cb_id cb_proof n_confirmations =
     rbind (to_vec \<lparr>tx_id = transaction_hash, tx_block_blockhash = transaction_block_blockhash,
       tx_index = transaction_position, merkle_proof = proof, confirmations = n_confirmations,
       coinbase_tx_id = cb_id, coinbase_merkle_proof = cb_proof\<rparr>) (\<lambda>args.
     rbind (sign_tx signer ''verify_transaction_inclusion_v2'' args 0 None) (\<lambda>tx.
     rbind (submit_tx tx) (\<lambda>tx_hash.
     rbind (get_tx_status tx_hash) parse_verify_response)))"

section \<open>The shared state and the tasks on it\<close>

record relay_state =
  first_block_height_to_submit :: u64
  relay_sizer :: batch_sizer

datatype relay_action = StoreHeight u64 | GasExceededSizer | SuccessSizer u64 u64

text \<open>A panic inside \<open>on_success\<close> ends the task and leaves the sizer as it is.\<close>

fun apply_action :: "relay_action \<Rightarrow> relay_state \<Rightarrow> relay_state" where
  "apply_action (StoreHeight height) st = st\<lparr>first_block_height_to_submit := height\<rparr>"
| "apply_action GasExceededSizer st = st\<lparr>relay_sizer := on_gas_exceeded (relay_sizer st)\<rparr>"
| "apply_action (SuccessSizer gas_burnt num_blocks) st =
     (case on_success gas_burnt num_blocks (relay_sizer st) of Inl _ \<Rightarrow> st | Inr s \<Rightarrow> st\<lparr>relay_sizer := s\<rparr>)"

text \<open>What the task of one transaction does, given how it ended and the last correct height at that time.\<close>

definition task_actions :: "'tx signed_submit \<Rightarrow> (custom_error + u64) attempt \<Rightarrow> u64 attempt \<Rightarrow> relay_action list" where
  "task_actions tx outcome last_correct =
     (let num_blocks_in_tx = saturating_sub_w (last_block_height tx + 1) (first_block_height tx);
          reset = (case last_correct of Inl _ \<Rightarrow> [] | Inr height \<Rightarrow> [StoreHeight (height + 1)])
      in case outcome of
           Inr (Inl PrevBlockNotFound) \<Rightarrow> reset
         | Inr (Inl GasExceeded_Error) \<Rightarrow> GasExceededSizer # reset
         | Inr (Inr gas_burnt) \<Rightarrow> StoreHeight (last_block_height tx + 1) #
             (if gas_burnt > 0 then [SuccessSizer gas_burnt num_blocks_in_tx] else [])
         | Inr (Inl (TxExecutionError err)) \<Rightarrow> []
         | Inl err \<Rightarrow> [])"

text \<open>
  Any order in which concurrent tasks perform their actions, each task in its own order. A panic of the
  caller, of \<open>chunks(0)\<close>, ends the program: there is no next state.
\<close>

inductive interleaving :: "'x list list \<Rightarrow> 'x list \<Rightarrow> bool" where
  finished: "\<forall>xs \<in> set tasks. xs = [] \<Longrightarrow> interleaving tasks []"
| step: "i < length tasks \<Longrightarrow> tasks ! i = x # xs \<Longrightarrow> interleaving (tasks[i := xs]) zs \<Longrightarrow> interleaving tasks (x # zs)"

definition prepare_and_submit_batches :: "'tx signed_submit list attempt \<Rightarrow>
    ('tx signed_submit \<Rightarrow> (custom_error + u64) attempt \<times> u64 attempt) \<Rightarrow> relay_state \<Rightarrow> relay_state \<Rightarrow> bool" where
  "prepare_and_submit_batches signed_txs outcome st st' \<longleftrightarrow>
     (case signed_txs of
        Inl (Panicked _) \<Rightarrow> False
      | Inl _ \<Rightarrow> st' = st
      | Inr txs \<Rightarrow> (\<exists>zs. interleaving (map (\<lambda>tx. task_actions tx (fst (outcome tx)) (snd (outcome tx))) txs) zs \<and>
          st' = fold apply_action zs st))"

text \<open>Whether a fetched range is on the contract already; then it is skipped.\<close>

definition check_submission_skipped :: "'a near \<Rightarrow> string \<Rightarrow> u64 \<Rightarrow> relay_state \<Rightarrow> bool attempt \<times> relay_state" where
  "check_submission_skipped near last_block_hash number_of_blocks st =
     (case is_block_hash_exists near last_block_hash of
        Inl e \<Rightarrow> (Inl e, st)
      | Inr True \<Rightarrow> (Inr True, st\<lparr>first_block_height_to_submit := first_block_height_to_submit st + number_of_blocks\<rparr>)
      | Inr False \<Rightarrow> (Inr False, st))"

definition saturating_add_u64 :: "u64 \<Rightarrow> u64 \<Rightarrow> u64" where
  "saturating_add_u64 a b = (if unat a + unat b < 2 ^ 64 then a + b else - 1)"

text \<open>
  One iteration of the loop in \<open>sync\<close>. The record is what the outside world answers meanwhile: the node, the
  tasks of the fetch, the contract's views, the access key, the signed transactions and how each ends,
  with the last correct height its task then reads.
\<close>

record ('h, 'x, 'a, 'tx) iteration =
  it_node :: node
  it_tasks :: "u64 \<Rightarrow> ('h \<times> 'x) task"
  it_near :: "'a near"
  it_key :: "query_response attempt"
  it_signer :: "'tx near_signer"
  it_to_vec :: "('h \<times> 'x) list \<Rightarrow> u8 list attempt"
  it_outcome :: "'tx signed_submit \<Rightarrow> (custom_error + u64) attempt \<times> u64 attempt"

definition sync_iteration :: "host \<Rightarrow> ('h \<Rightarrow> h256) \<Rightarrow> ('h, 'x, 'a, 'tx) iteration \<Rightarrow> relay_state \<Rightarrow> relay_state \<Rightarrow> bool" where
  "sync_iteration env hash_of it st st' \<longleftrightarrow>
     (case node_block_count (it_node it) of
        Inl _ \<Rightarrow> st' = st
      | Inr latest_height \<Rightarrow>
        (let start_height = first_block_height_to_submit st;
             end_height = min latest_height (saturating_add_u64 start_height (current_fetch_size (relay_sizer st)));
             blocks_to_submit = fetch_blocks_to_submit (it_tasks it) start_height end_height
         in if blocks_to_submit = [] then st' = st
            else let last_block_hash = h256_to_string env (hash_of (fst (snd (last blocks_to_submit))));
                     (skip, st1) = check_submission_skipped (it_near it) last_block_hash (word_of_nat (length blocks_to_submit)) st
                 in if skip = Inr True then st' = st1
                    else prepare_and_submit_batches
                      (sign_submit_blocks (it_key it) (it_signer it) (it_to_vec it) blocks_to_submit (unat (current_batch_size (relay_sizer st))))
                      (it_outcome it) st1 st'))"

text \<open>The state before the loop: the first height is the one after the last correct block, which must be found.\<close>

definition sync_start :: "config \<Rightarrow> u64 attempt \<Rightarrow> relay_state result" where
  "sync_start config last_correct =
     (case last_correct of Inl _ \<Rightarrow> Inl (Panic ''unwrap'')
      | Inr height \<Rightarrow> Inr \<lparr>first_block_height_to_submit = height + 1, relay_sizer = sizer_new config\<rparr>)"

inductive sync :: "host \<Rightarrow> ('h \<Rightarrow> h256) \<Rightarrow> ('h, 'x, 'a, 'tx) iteration list \<Rightarrow> relay_state \<Rightarrow> relay_state \<Rightarrow> bool"
  for env hash_of where
  start: "sync env hash_of [] st st"
| iterate: "sync_iteration env hash_of it st st1 \<Longrightarrow> sync env hash_of its st1 st' \<Longrightarrow> sync env hash_of (it # its) st st'"

section \<open>Initialising the contract\<close>

text \<open>The headers from a block back to its ancestors; \<open>expect\<close> makes every failure a panic.\<close>

definition expect :: "string \<Rightarrow> 'x attempt \<Rightarrow> 'x result" where
  "expect msg r = (case r of Inl _ \<Rightarrow> Inl (Panic msg) | Inr x \<Rightarrow> Inr x)"

fun walk_back :: "(h256 \<Rightarrow> ('h header_base_scheme \<times> 'x) attempt) \<Rightarrow> nat \<Rightarrow> 'h header_base_scheme \<Rightarrow>
    'h header_base_scheme list result" where
  "walk_back get_aux 0 current_header = Inr []"
| "walk_back get_aux (Suc n) current_header =
     rbind (expect ''Failed to get previous block header'' (get_aux (prev_block_hash current_header))) (\<lambda>(header, _).
     rbind (walk_back get_aux n header) (\<lambda>headers. Inr (header # headers)))"

text \<open>The arguments that \<open>init_contract\<close> passes to \<open>init\<close>.\<close>

definition init_contract_args :: "('h header_base_scheme \<Rightarrow> h256) \<Rightarrow> node \<Rightarrow> (h256 \<Rightarrow> ('h header_base_scheme \<times> 'x) attempt) \<Rightarrow>
    init_config \<Rightarrow> 'h header_base_scheme init_args result" where
  "init_contract_args hash_of node get_aux conf =
     rbind (expect ''Failed to get block hash'' (node_block_hash node (init_height conf))) (\<lambda>tip_hash.
     rbind (expect ''Failed to get initial block header'' (get_aux tip_hash)) (\<lambda>(current_header, _).
     rbind (walk_back get_aux (unat (num_of_blcoks_to_submit conf) - 1) current_header) (\<lambda>previous.
     let headers = rev (current_header # previous) in
     Inr \<lparr>genesis_block_hash = hash_of (hd headers),
       genesis_block_height = init_height conf - num_of_blcoks_to_submit conf + 1,
       arg_skip_pow_verification = init_skip_pow_verification conf,
       arg_gc_threshold = init_gc_threshold conf,
       arg_network = init_network conf,
       submit_blocks_arg = headers\<rparr>)))"

definition init_contract :: "('h header_base_scheme \<Rightarrow> h256) \<Rightarrow> node \<Rightarrow> (h256 \<Rightarrow> ('h header_base_scheme \<times> 'x) attempt) \<Rightarrow>
    ('h header_base_scheme init_args \<Rightarrow> 'r attempt) \<Rightarrow> init_config \<Rightarrow> unit result" where
  "init_contract hash_of node get_aux near_init conf =
     rbind (init_contract_args hash_of node get_aux conf) (\<lambda>args.
     rbind (expect ''Failed to init contract'' (near_init args)) (\<lambda>_. Inr ()))"

text \<open>
  The start of the program, up to the loop: the configuration is loaded, the clients are made, the contract
  is initialised if the flag is given, and the first height is determined.
\<close>

definition relayer_start :: "string + config \<Rightarrow> (near_config \<Rightarrow> 'c result) \<Rightarrow> bool \<Rightarrow> ('c \<Rightarrow> init_config \<Rightarrow> unit result) \<Rightarrow>
    ('c \<Rightarrow> config \<Rightarrow> u64 attempt) \<Rightarrow> string list + relay_state result" where
  "relayer_start built make_client init_flag run_init find_last =
     (case load built of Inl missing \<Rightarrow> Inl missing
      | Inr conf \<Rightarrow> Inr
        (rbind (make_client (near_conf conf)) (\<lambda>near_client.
         rbind (if init_flag
                then rbind (get_or (Panic ''Init Config not found'') (init_conf conf)) (run_init near_client)
                else Inr ()) (\<lambda>_.
         sync_start conf (find_last near_client conf)))))"

end
