(* ===== verification/Relay_Correctness.thy ===== *)
theory Relay_Correctness
  imports Relayer
begin

text \<open>
  What the relayer achieves: it finds the fork point, fetches blocks without a gap, signs all of them, keeps
  the size of its batches within the limits, never passes over a block and initialises the contract.
\<close>

section \<open>The transport\<close>

text \<open>Headers of the configuration are sent only together with user and password.\<close>

lemma transport_drops_headers:
  assumes "node_user (bitcoin_conf config) = None \<or> node_password (bitcoin_conf config) = None"
  shows "transport_request (transport_new base64 config) send body =
    transport_request (transport_new base64 (config\<lparr>bitcoin_conf := (bitcoin_conf config)\<lparr>node_headers := None\<rparr>\<rparr>)) send body"
  using assms by (auto simp: transport_request_def transport_new_def Let_def split: option.splits)

section \<open>Recovery from a fork\<close>

text \<open>
  What the relayer relies on: the view calls answer with the contract's state, hashes as text. The
  interface is met by a contract whose views are called directly, where a panic is an RPC error.
\<close>

definition contract_near :: "host \<Rightarrow> 'a client \<Rightarrow> 'a near" where
  "contract_near env s =
     \<lparr>near_last_block_header = (case get_last_block_header s of Inl _ \<Rightarrow> Inl (Rpc ''panic'') | Inr e \<Rightarrow> Inr e),
      near_last_n_blocks_hashes = (\<lambda>n shift. case get_last_n_blocks_hashes s shift n of
        Inl _ \<Rightarrow> Inl (Rpc ''panic'') | Inr hs \<Rightarrow> Inr (map (h256_to_string env) hs)),
      near_height_by_block_hash = (\<lambda>t. case h256_from_str env t of None \<Rightarrow> Inl (Rpc ''argument'')
        | Some h \<Rightarrow> Inr (get_height_by_block_hash s h))\<rparr>"

lemma word_offset: "unat a = unat b + m \<Longrightarrow> a = b + word_of_nat m" for a b :: "'w::len word"
  by (metis of_nat_add of_nat_unat ucast_id)

lemma find_common_first:
  assumes "k < length hs" "\<And>j. j < k \<Longrightarrow> \<exists>t. node_hash (n - word_of_nat j) = Inr t \<and> t \<noteq> hs ! j"
    and "node_hash (n - word_of_nat k) = Inr (hs ! k)"
  shows "find_common node_hash hs n = Inr (n - word_of_nat k)"
  using assms
proof (induction hs arbitrary: n k)
  case (Cons h hs)
  show ?case
  proof (cases k)
    case 0
    then show ?thesis using Cons.prems(3) by simp
  next
    case (Suc j)
    have "find_common node_hash hs (n - 1) = Inr (n - 1 - word_of_nat j)"
    proof (rule Cons.IH)
      show "j < length hs" using Cons.prems(1) Suc by simp
      show "node_hash (n - 1 - word_of_nat j) = Inr (hs ! j)" using Cons.prems(3) Suc by (simp add: algebra_simps)
      show "\<exists>t. node_hash (n - 1 - word_of_nat i) = Inr t \<and> t \<noteq> hs ! i" if "i < j" for i
        using Cons.prems(2) [of "Suc i"] Suc that by (simp add: algebra_simps)
    qed
    moreover obtain t where "node_hash n = Inr t" "t \<noteq> h" using Cons.prems(2) [of 0] Suc by auto
    ultimately show ?thesis using Suc by (auto simp: algebra_simps)
  qed
qed simp

locale relayed_contract =
  fixes env :: host and near :: "'a client \<Rightarrow> 'a near"
  assumes last_header: "get_last_block_header s = Inr e \<Longrightarrow> near_last_block_header (near s) = Inr e"
    and last_hashes: "get_last_n_blocks_hashes s shift n = Inr hs \<Longrightarrow>
      near_last_n_blocks_hashes (near s) n shift = Inr (map (h256_to_string env) hs)"
begin

text \<open>
  The relayer finds the newest block of the main chain, among the last \<open>fork_len + 1\<close>, that is also the
  node's block at its height.
\<close>

lemma finds_fork_point:
  assumes cf: "collision_free S g" and inv: "chain_inv S g c s"
    and len: "0 < fork_len" "unat fork_len + 1 \<le> unat (block_height (last c))"
    and i: "i < length c" "length c \<le> i + unat fork_len + 1"
    and agree: "node_hash (block_height (c ! i)) = Inr (h256_to_string env (block_hash (c ! i)))"
    and differ: "\<And>j. i < j \<Longrightarrow> j < length c \<Longrightarrow>
      \<exists>t. node_hash (block_height (c ! j)) = Inr t \<and> t \<noteq> h256_to_string env (block_hash (c ! j))"
  shows "get_last_correct_block_height env (near s) node_hash fork_len = Inr (block_height (c ! i))"
proof -
  note D = chain_invD [OF inv]
  let ?L = "length c" and ?str = "\<lambda>e. h256_to_string env (block_hash e)"
  have tip: "last c = c ! (?L - 1)" using D(1) by (rule last_conv_nth)
  have hdr: "near_last_block_header (near s) = Inr (last c)" by (rule last_header [OF tip_of_chain [OF inv]])
  show ?thesis
  proof (cases "i = ?L - 1")
    case True
    then show ?thesis using agree by (simp add: get_last_correct_block_height_def hdr tip)
  next
    case False
    then have iL: "i < ?L - 1" using i(1) by simp
    have "?L - 1 < ?L" using i(1) by simp
    from differ [OF iL this] obtain t where t: "node_hash (block_height (last c)) = Inr t" "t \<noteq> ?str (last c)"
      unfolding tip by blast
    define W where "W = drop (?L - 1 - unat fork_len) (take (?L - 1) c)"
    have "near_last_n_blocks_hashes (near s) fork_len 1 = Inr (map ?str W)"
      using last_hashes [OF last_n_hashes [OF cf inv len(1), of 1]] len(2) by (simp add: W_def comp_def)
    then have run: "get_last_correct_block_height env (near s) node_hash fork_len =
        find_common node_hash (rev (map ?str W)) (block_height (last c) - 1)"
      using t by (simp add: get_last_correct_block_height_def hdr)
    have lenW: "length W = min (?L - 1) (unat fork_len)" by (simp add: W_def)
    have nthW: "rev (map ?str W) ! k = ?str (c ! (?L - 2 - k))" if "k < length W" for k
    proof -
      have "rev (map ?str W) ! k = ?str (W ! (length W - Suc k))" using that by (simp add: rev_nth)
      also have "W ! (length W - Suc k) = c ! (?L - 1 - unat fork_len + (length W - Suc k))"
        using that by (auto simp: W_def)
      also have "?L - 1 - unat fork_len + (length W - Suc k) = ?L - 2 - k" using that lenW by auto
      finally show ?thesis .
    qed
    have height: "block_height (last c) - 1 - word_of_nat k = block_height (c ! (?L - 2 - k))" if "k < ?L - 1" for k
    proof -
      have "block_height (last c) = block_height (c ! (?L - 2 - k)) + word_of_nat (k + 1)"
        using linked_height_nth [OF cf D(2), of "?L - 2 - k"] linked_height_nth [OF cf D(2), of "?L - 1"] D(6) that
        by (intro word_offset) (simp add: tip)
      then show ?thesis by simp
    qed
    define k where "k = ?L - 2 - i"
    have k: "k < length W" "k < ?L - 1" "?L - 2 - k = i" using iL i(2) by (auto simp: k_def lenW)
    have "find_common node_hash (rev (map ?str W)) (block_height (last c) - 1) = Inr (block_height (last c) - 1 - word_of_nat k)"
    proof (rule find_common_first)
      show "k < length (rev (map ?str W))" using k by simp
      show "node_hash (block_height (last c) - 1 - word_of_nat k) = Inr (rev (map ?str W) ! k)"
        using agree k by (simp only: height nthW)
      show "\<exists>t. node_hash (block_height (last c) - 1 - word_of_nat j) = Inr t \<and> t \<noteq> rev (map ?str W) ! j" if "j < k" for j
      proof -
        have "j < length W" "j < ?L - 1" "i < ?L - 2 - j" "?L - 2 - j < ?L" using that k by (auto simp: k_def)
        then show ?thesis using differ [of "?L - 2 - j"] by (simp only: height nthW)
      qed
    qed
    then show ?thesis using run height [OF k(2)] k(3) by simp
  qed
qed

end

interpretation direct: relayed_contract env "contract_near env" for env
  by unfold_locales (simp_all add: contract_near_def)

text \<open>
  The runtime finds the method and its arguments by name; a panic of the view is an error. Where the JSON
  encodings of the results can be decoded, the view calls of the relayer give exactly these answers.
\<close>

definition contract_views :: "host \<Rightarrow> ('a ext_header \<Rightarrow> u8 list) \<Rightarrow> (string list \<Rightarrow> u8 list) \<Rightarrow> (u64 option \<Rightarrow> u8 list) \<Rightarrow>
    'a client \<Rightarrow> string \<Rightarrow> (string \<times> json) list \<Rightarrow> view_kind attempt" where
  "contract_views env enc_header enc_hashes enc_height s method args =
     (if method = ''get_last_block_header'' then
        (case get_last_block_header s of Inl _ \<Rightarrow> Inl (Rpc ''panic'') | Inr e \<Rightarrow> Inr (CallResult (enc_header e)))
      else if method = ''get_last_n_blocks_hashes'' then
        (case (map_of args ''skip'', map_of args ''limit'') of
           (Some (JNumber skip), Some (JNumber limit)) \<Rightarrow>
             (case get_last_n_blocks_hashes s skip limit of Inl _ \<Rightarrow> Inl (Rpc ''panic'')
              | Inr hs \<Rightarrow> Inr (CallResult (enc_hashes (map (h256_to_string env) hs))))
         | _ \<Rightarrow> Inl (Rpc ''argument''))
      else if method = ''get_height_by_block_hash'' then
        (case map_of args ''blockhash'' of
           Some (JString t) \<Rightarrow> (case h256_from_str env t of None \<Rightarrow> Inl (Rpc ''argument'')
             | Some h \<Rightarrow> Inr (CallResult (enc_height (get_height_by_block_hash s h))))
         | _ \<Rightarrow> Inl (Rpc ''argument''))
      else Inl (Rpc ''method''))"

lemma near_of_contract_views:
  assumes "\<And>e. decode_ext_header dec (enc_header e) = Some e" "\<And>hs. decode_hash_list dec (enc_hashes hs) = Some hs"
    and "\<And>n. decode_height dec (enc_height n) = Some n"
  shows "near_of_views (contract_views env enc_header enc_hashes enc_height s) dec = contract_near env s"
  unfolding near_of_views_def contract_near_def
  by (simp add: fun_eq_iff near_get_last_block_header_def near_get_last_n_blocks_hashes_def
    near_get_height_by_block_hash_def submit_view_tx_def from_slice_def contract_views_def assms split: sum.splits option.splits)

section \<open>Fetched blocks\<close>

text \<open>The block of a task that ended well.\<close>

fun fetched :: "'x task \<Rightarrow> (u64 \<times> 'x) option" where
  "fetched (Joined (Inr b)) = Some b"
| "fetched (Joined (Inl h)) = None"
| "fetched JoinError = None"

text \<open>A task reports its own height, as \<open>get_block_header\<close> does.\<close>

definition honest_tasks :: "(u64 \<Rightarrow> 'x task) \<Rightarrow> bool" where
  "honest_tasks run \<longleftrightarrow> (\<forall>h. run h = JoinError \<or> run h = Joined (Inl h) \<or> (\<exists>x. run h = Joined (Inr (h, x))))"

lemma honest_get_block_header:
  "(\<And>h. run h = JoinError \<or> run h = Joined (get_block_header node get_aux h)) \<Longrightarrow> honest_tasks run"
  unfolding honest_tasks_def get_block_header_def by (fastforce split: sum.splits prod.splits)

definition cut :: "(u64 \<times> 'x) list \<times> u64 option \<Rightarrow> (u64 \<times> 'x) list" where
  "cut r = (case snd r of None \<Rightarrow> fst r | Some m \<Rightarrow> filter (\<lambda>(height, _). height < m) (fst r))"

lemma honest_cases:
  assumes "honest_tasks run"
  obtains "run h = JoinError" | "run h = Joined (Inl h)" | x where "run h = Joined (Inr (h, x))"
  using assms unfolding honest_tasks_def by blast

lemma join_after_failure:
  assumes "honest_tasks run" "sorted_wrt (<) hs" "\<forall>h \<in> set hs. f < h"
    and "sorted (map fst bs)" "\<forall>b \<in> set bs. fst b \<le> f"
  shows "\<exists>ys. join_tasks (map run hs) (bs @ zs) (Some f) = (bs @ zs @ ys, Some f) \<and> sorted (map fst ys) \<and> fst ` set ys \<subseteq> set hs"
  using assms(2,3)
proof (induction hs arbitrary: zs)
  case (Cons h hs)
  then have rest: "sorted_wrt (<) hs" "\<forall>h \<in> set hs. f < h" and low: "\<forall>h' \<in> set hs. h < h'" "f < h" by auto
  show ?case
  proof (rule honest_cases [OF assms(1), of h])
    assume "run h = JoinError"
    then show ?thesis by (intro exI [of _ "[]"]) simp
  next
    assume "run h = Joined (Inl h)"
    moreover have "min f h = f" using low by simp
    ultimately show ?thesis using Cons.IH [OF rest, of zs] by auto
  next
    fix x assume run: "run h = Joined (Inr (h, x))"
    from Cons.IH [OF rest, of "zs @ [(h, x)]"] obtain ys where
      ys: "join_tasks (map run hs) (bs @ zs @ [(h, x)]) (Some f) = (bs @ (zs @ [(h, x)]) @ ys, Some f)"
        "sorted (map fst ys)" "fst ` set ys \<subseteq> set hs" by auto
    have "sorted (map fst ((h, x) # ys))" using ys(2,3) low by (auto simp: less_imp_le)
    then show ?thesis using run ys by (intro exI [of _ "(h, x) # ys"]) auto
  qed
qed (intro exI [of _ "[]"], simp)

lemma join_tasks_prefix:
  assumes "honest_tasks run" "sorted_wrt (<) hs" "sorted (map fst bs)" "\<forall>b \<in> set bs. \<forall>h \<in> set hs. fst b < h"
  shows "sorted (map fst (fst (join_tasks (map run hs) bs None)))"
    and "cut (join_tasks (map run hs) bs None) =
      bs @ map (the \<circ> fetched \<circ> run) (takeWhile (\<lambda>h. fetched (run h) \<noteq> None) hs)"
proof -
  have "sorted (map fst (fst (join_tasks (map run hs) bs None))) \<and> cut (join_tasks (map run hs) bs None) =
      bs @ map (the \<circ> fetched \<circ> run) (takeWhile (\<lambda>h. fetched (run h) \<noteq> None) hs)"
    using assms(2-4)
  proof (induction hs arbitrary: bs)
    case Nil
    then show ?case by (simp add: cut_def)
  next
    case (Cons h hs)
    have low: "\<forall>h' \<in> set hs. h < h'" and bs: "\<forall>b \<in> set bs. fst b < h" using Cons.prems by auto
    show ?case
    proof (rule honest_cases [OF assms(1), of h])
      assume "run h = JoinError"
      then show ?thesis using Cons.prems by (simp add: cut_def)
    next
      assume run: "run h = Joined (Inl h)"
      have "\<forall>b \<in> set bs. fst b \<le> h" using bs by (auto simp: less_imp_le)
      from join_after_failure [OF assms(1) _ low Cons.prems(2) this, of "[]"] Cons.prems(1) obtain ys where
        ys: "join_tasks (map run hs) bs (Some h) = (bs @ ys, Some h)" "sorted (map fst ys)" "fst ` set ys \<subseteq> set hs" by auto
      have "filter (\<lambda>(height, _). height < h) (bs @ ys) = bs"
      proof -
        have "filter (\<lambda>(height, _). height < h) bs = bs" using bs by (auto simp: filter_id_conv)
        moreover have "filter (\<lambda>(height, _). height < h) ys = []" using ys(3) low by (fastforce simp: filter_empty_conv)
        ultimately show ?thesis by simp
      qed
      moreover have "sorted (map fst (bs @ ys))"
        using Cons.prems(2) ys(2,3) bs low by (fastforce simp: sorted_append)
      ultimately show ?thesis using run ys(1) by (simp add: cut_def)
    next
      fix x assume run: "run h = Joined (Inr (h, x))"
      have "sorted (map fst (bs @ [(h, x)]))" using Cons.prems(2) bs by (fastforce simp: sorted_append)
      moreover have "\<forall>b \<in> set (bs @ [(h, x)]). \<forall>h' \<in> set hs. fst b < h'" using Cons.prems(3) low by auto
      ultimately show ?thesis using Cons.IH [of "bs @ [(h, x)]"] Cons.prems(1) run by simp
    qed
  qed
  then show "sorted (map fst (fst (join_tasks (map run hs) bs None)))"
    "cut (join_tasks (map run hs) bs None) = bs @ map (the \<circ> fetched \<circ> run) (takeWhile (\<lambda>h. fetched (run h) \<noteq> None) hs)"
    by blast+
qed

lemma sorted_range: "sorted_wrt (<) (word_range_incl a b :: u64 list)"
proof -
  have "sorted_wrt (<) (map unat (word_range_incl a b))" by (simp only: map_unat_word_range(2) sorted_wrt_upt)
  moreover have "(<) = (\<lambda>x y :: u64. unat x < unat y)" by (simp add: fun_eq_iff word_less_nat_alt)
  ultimately show ?thesis by (simp add: sorted_wrt_map)
qed

lemma fetch_prefix:
  assumes "honest_tasks run"
  shows "fetch_blocks_to_submit run a b =
    map (the \<circ> fetched \<circ> run) (takeWhile (\<lambda>h. fetched (run h) \<noteq> None) (word_range_incl a b))"
proof -
  let ?r = "join_tasks (map run (word_range_incl a b)) [] None"
  have s: "sorted (map fst (fst ?r))" and c: "cut ?r = map (the \<circ> fetched \<circ> run) (takeWhile (\<lambda>h. fetched (run h) \<noteq> None) (word_range_incl a b))"
    using join_tasks_prefix [OF assms sorted_range, of "[]"] by auto
  have "sort_key fst (fst ?r) = fst ?r" using s by (rule sort_key_id_if_sorted)
  then show ?thesis unfolding c [symmetric] cut_def fetch_blocks_to_submit_def by (cases ?r) (simp add: Let_def split: option.splits)
qed

section \<open>Batches\<close>

lemma chunks_concat: "0 < n \<Longrightarrow> concat (chunks n xs) = xs"
  by (induction n xs rule: chunks.induct) (subst chunks.simps, auto)

lemma chunks_size: "ys \<in> set (chunks n xs) \<Longrightarrow> ys \<noteq> [] \<and> length ys \<le> n"
  by (induction n xs rule: chunks.induct) (subst (asm) (2) chunks.simps, auto split: if_splits)

text \<open>A transaction with the given nonce that submits these blocks, with the deposit and the gas that the relayer attaches.\<close>

definition submits :: "'tx near_signer \<Rightarrow> ('x list \<Rightarrow> u8 list attempt) \<Rightarrow> u64 \<Rightarrow> (u64 \<times> 'x) list \<Rightarrow> 'tx \<Rightarrow> bool" where
  "submits signer to_vec n blocks tx \<longleftrightarrow> (\<exists>t. tx = sign signer t \<and> tx_nonce t = n \<and> signer_id t = signer_account signer \<and>
     receiver_id t = contract_account signer \<and> method_name t = ''submit_blocks'' \<and> to_vec (map snd blocks) = Inr (method_args t) \<and>
     deposit t = 5 * 10 ^ 23 \<and> prepaid_gas t = 300000000000000)"

lemma sign_chunks_Inr:
  "sign_chunks signer to_vec n cs = Inr txs \<Longrightarrow> length txs = length cs \<and> (\<forall>k < length cs.
    first_block_height (txs ! k) = fst (hd (cs ! k)) \<and> last_block_height (txs ! k) = fst (last (cs ! k)) \<and>
    submits signer to_vec (n + word_of_nat k) (cs ! k) (signed_tx (txs ! k)))"
proof (induction signer to_vec n cs arbitrary: txs rule: sign_chunks.induct)
  case (2 signer to_vec n chunk rest)
  from "2.prems" obtain args tx ts where chunk: "chunk \<noteq> []" and args: "to_vec (map snd chunk) = Inr args" and
    tx: "sign_tx signer ''submit_blocks'' args (5 * 10 ^ 23) (Some n) = Inr tx" and
    ts: "sign_chunks signer to_vec (n + 1) rest = Inr ts" and
    txs: "txs = \<lparr>first_block_height = fst (hd chunk), last_block_height = fst (last chunk), signed_tx = tx\<rparr> # ts"
    by (auto simp: rbind_Inr split: if_splits)
  have "submits signer to_vec n chunk tx" using tx args by (force simp: submits_def sign_tx_def rbind_Inr)
  then show ?case using "2.IH" [OF chunk ts] txs by (auto simp: nth_Cons algebra_simps split: nat.splits)
qed simp

text \<open>The signed transactions carry the fetched blocks in order, in batches of at most the given size.\<close>

lemma sign_submit_blocks_Inr:
  assumes "sign_submit_blocks (Inr response) signer to_vec headers batch_size = Inr txs" "response_kind response = AccessKey n"
  shows "\<exists>parts. concat parts = headers \<and> length txs = length parts \<and> (\<forall>k < length parts.
    parts ! k \<noteq> [] \<and> length (parts ! k) \<le> batch_size \<and>
    first_block_height (txs ! k) = fst (hd (parts ! k)) \<and> last_block_height (txs ! k) = fst (last (parts ! k)) \<and>
    submits signer to_vec (n + 1 + word_of_nat k) (parts ! k) (signed_tx (txs ! k)))"
proof -
  from assms have n: "0 < batch_size" and run: "sign_chunks signer to_vec (n + 1) (chunks batch_size headers) = Inr txs"
    by (auto simp: sign_submit_blocks_def split: if_splits)
  show ?thesis
    using sign_chunks_Inr [OF run] chunks_concat [OF n, of headers] chunks_size [OF nth_mem, of _ batch_size headers]
    by (intro exI [of _ "chunks batch_size headers"]) auto
qed

section \<open>The sizer\<close>

definition sizer_ok :: "batch_sizer \<Rightarrow> bool" where
  "sizer_ok s \<longleftrightarrow> min_batch_size s \<le> current_batch_size s \<and> current_batch_size s \<le> max_batch_size s"

definition same_limits :: "batch_sizer \<Rightarrow> batch_sizer \<Rightarrow> bool" where
  "same_limits s s' \<longleftrightarrow> max_batch_size s' = max_batch_size s \<and> max_fetch_size s' = max_fetch_size s \<and>
     min_batch_size s' = min_batch_size s \<and> num_parallel_txs s' = num_parallel_txs s"

lemma on_gas_exceeded_ok: "sizer_ok s \<Longrightarrow> sizer_ok (on_gas_exceeded s) \<and> same_limits s (on_gas_exceeded s)"
proof -
  assume ok: "sizer_ok s"
  have "current_batch_size s div 2 \<le> current_batch_size s" by (simp add: word_le_nat_alt unat_div_distrib)
  then show ?thesis using ok by (auto simp: sizer_ok_def same_limits_def on_gas_exceeded_def)
qed

lemma on_success_ok:
  assumes "sizer_ok s"
  shows "\<exists>s'. on_success gas_burnt num_blocks s = Inr s' \<and> sizer_ok s' \<and> same_limits s s'"
proof -
  have "min_batch_size s \<le> max_batch_size s" using assms by (auto simp: sizer_ok_def)
  then show ?thesis using assms by (auto simp: on_success_def Let_def sizer_ok_def same_limits_def)
qed

lemma same_limits_trans: "same_limits s s' \<Longrightarrow> same_limits s' s'' \<Longrightarrow> same_limits s s''"
  by (simp add: same_limits_def)

lemma apply_action_ok:
  "sizer_ok (relay_sizer st) \<Longrightarrow> sizer_ok (relay_sizer (apply_action a st)) \<and> same_limits (relay_sizer st) (relay_sizer (apply_action a st))"
proof (cases a)
  case (SuccessSizer gas n)
  moreover assume "sizer_ok (relay_sizer st)"
  ultimately show ?thesis using on_success_ok [of "relay_sizer st" gas n] by auto
next
  case GasExceededSizer
  moreover assume "sizer_ok (relay_sizer st)"
  ultimately show ?thesis using on_gas_exceeded_ok by simp
qed (simp add: same_limits_def)

lemma fold_actions_ok:
  "sizer_ok (relay_sizer st) \<Longrightarrow> sizer_ok (relay_sizer (fold apply_action zs st)) \<and>
    same_limits (relay_sizer st) (relay_sizer (fold apply_action zs st))"
proof (induction zs arbitrary: st)
  case (Cons z zs)
  then show ?case using apply_action_ok [of st z] Cons.IH [of "apply_action z st"] same_limits_trans by auto
qed (simp add: same_limits_def)

lemma skipped_sizer: "relay_sizer (snd (check_submission_skipped near h n st)) = relay_sizer st"
  by (simp add: check_submission_skipped_def split: sum.splits bool.splits)

text \<open>Whatever happens to the transactions, and in whatever order the tasks come to the sizer, it stays in its limits.\<close>

lemma prepare_and_submit_batches_sizer:
  assumes "prepare_and_submit_batches txs outcome st st'" "sizer_ok (relay_sizer st)"
  shows "sizer_ok (relay_sizer st') \<and> same_limits (relay_sizer st) (relay_sizer st')"
proof (cases txs)
  case (Inl e)
  then show ?thesis using assms by (cases e) (simp_all add: prepare_and_submit_batches_def same_limits_def)
next
  case (Inr ts)
  then show ?thesis using assms(1) fold_actions_ok [OF assms(2)] by (auto simp: prepare_and_submit_batches_def)
qed

lemma sync_iteration_sizer:
  assumes "sync_iteration env hash_of it st st'" "sizer_ok (relay_sizer st)"
  shows "sizer_ok (relay_sizer st') \<and> same_limits (relay_sizer st) (relay_sizer st')"
proof -
  have idle: ?thesis if "st' = st" using that assms(2) by (simp add: same_limits_def)
  show ?thesis
  proof (cases "node_block_count (it_node it)")
    case (Inl e)
    then show ?thesis using assms(1) idle by (simp add: sync_iteration_def)
  next
    case (Inr n)
    define blocks where "blocks = fetch_blocks_to_submit (it_tasks it) (first_block_height_to_submit st)
      (min n (saturating_add_u64 (first_block_height_to_submit st) (current_fetch_size (relay_sizer st))))"
    obtain skip st1 where chk: "check_submission_skipped (it_near it)
        (h256_to_string env (hash_of (fst (snd (last blocks))))) (word_of_nat (length blocks)) st = (skip, st1)"
      by (rule prod.exhaust)
    have st1: "relay_sizer st1 = relay_sizer st"
      using skipped_sizer [of "it_near it" "h256_to_string env (hash_of (fst (snd (last blocks))))" "word_of_nat (length blocks)" st]
      unfolding chk by simp
    from assms(1) have run: "if blocks = [] then st' = st else if skip = Inr True then st' = st1
        else prepare_and_submit_batches (sign_submit_blocks (it_key it) (it_signer it) (it_to_vec it) blocks
          (unat (current_batch_size (relay_sizer st)))) (it_outcome it) st1 st'"
      unfolding sync_iteration_def Inr sum.case Let_def blocks_def [symmetric] chk prod.case .
    show ?thesis
    proof (cases "blocks = [] \<or> skip = Inr True")
      case True
      then have "relay_sizer st' = relay_sizer st" using run st1 by (auto split: if_splits)
      then show ?thesis using assms(2) by (simp add: same_limits_def)
    next
      case False
      then have "prepare_and_submit_batches (sign_submit_blocks (it_key it) (it_signer it) (it_to_vec it) blocks
          (unat (current_batch_size (relay_sizer st)))) (it_outcome it) st1 st'" using run by simp
      from prepare_and_submit_batches_sizer [OF this] show ?thesis using assms(2) by (simp add: st1)
    qed
  qed
qed

lemma sync_sizer:
  assumes "sync env hash_of its st st'" "sizer_ok (relay_sizer st)"
  shows "sizer_ok (relay_sizer st') \<and> same_limits (relay_sizer st) (relay_sizer st')"
  using assms by induction (auto simp: same_limits_def dest!: sync_iteration_sizer)

lemma sizer_new_ok: "config_min_batch_size conf \<le> submit_batch_size conf \<Longrightarrow> sizer_ok (sizer_new conf)"
  by (simp add: sizer_ok_def sizer_new_def)

section \<open>The height to submit next\<close>

lemma interleaving_set: "interleaving tasks zs \<Longrightarrow> set zs \<subseteq> \<Union> (set ` set tasks)"
proof (induction rule: interleaving.induct)
  case (step i tasks x xs zs)
  have "set x' \<subseteq> \<Union> (set ` set tasks)" if "x' \<in> set (tasks[i := xs])" for x'
  proof (cases "x' \<in> set tasks")
    case False
    then have "x' = xs" using that set_update_subset_insert [of tasks i xs] by blast
    then have "set x' \<subseteq> set (tasks ! i)" using step.hyps by auto
    then show ?thesis using step.hyps(1) nth_mem by blast
  qed blast
  moreover have "x \<in> set (tasks ! i)" using step.hyps(2) by simp
  moreover have "tasks ! i \<in> set tasks" using step.hyps(1) by (rule nth_mem)
  ultimately show ?case using step.IH by fastforce
qed simp

lemma stored_height:
  "first_block_height_to_submit (fold apply_action zs st) = first_block_height_to_submit st \<or>
   StoreHeight (first_block_height_to_submit (fold apply_action zs st)) \<in> set zs"
proof (induction zs arbitrary: st)
  case (Cons z zs)
  show ?case using Cons.IH [of "apply_action z st"] by (cases z) (auto split: sum.splits)
qed simp

text \<open>
  A task moves the height behind its own blocks if its transaction succeeded, and to the first block after the
  common chain if the contract did not know the parent or the call ran out of gas. After any other outcome it
  leaves the height alone.
\<close>

definition wants_reset :: "(custom_error + u64) attempt \<Rightarrow> bool" where
  "wants_reset outcome \<longleftrightarrow> outcome = Inr (Inl PrevBlockNotFound) \<or> outcome = Inr (Inl GasExceeded_Error)"

lemma task_stores:
  assumes "StoreHeight h \<in> set (task_actions tx outcome last_correct)"
  shows "(\<exists>gas. outcome = Inr (Inr gas) \<and> h = last_block_height tx + 1) \<or>
    (\<exists>c. wants_reset outcome \<and> last_correct = Inr c \<and> h = c + 1)"
proof (cases outcome)
  case (Inr r)
  show ?thesis
  proof (cases r)
    case (Inl e)
    then show ?thesis using assms \<open>outcome = Inr r\<close>
      by (cases e) (auto simp: task_actions_def wants_reset_def Let_def split: sum.splits)
  next
    case (Inr gas)
    then show ?thesis using assms \<open>outcome = Inr r\<close> by (auto simp: task_actions_def Let_def split: if_splits)
  qed
qed (use assms in \<open>simp add: task_actions_def Let_def\<close>)

lemma submitted_height:
  assumes "prepare_and_submit_batches signed_txs outcome st st'"
  shows "first_block_height_to_submit st' = first_block_height_to_submit st \<or>
    (\<exists>txs tx. signed_txs = Inr txs \<and> tx \<in> set txs \<and>
      ((\<exists>gas. fst (outcome tx) = Inr (Inr gas) \<and> first_block_height_to_submit st' = last_block_height tx + 1) \<or>
       (\<exists>c. wants_reset (fst (outcome tx)) \<and> snd (outcome tx) = Inr c \<and> first_block_height_to_submit st' = c + 1)))"
proof (cases signed_txs)
  case (Inl e)
  then show ?thesis using assms by (cases e) (simp_all add: prepare_and_submit_batches_def)
next
  case (Inr txs)
  with assms obtain zs where
    zs: "interleaving (map (\<lambda>tx. task_actions tx (fst (outcome tx)) (snd (outcome tx))) txs) zs" "st' = fold apply_action zs st"
    by (auto simp: prepare_and_submit_batches_def)
  from stored_height [of zs st] show ?thesis
  proof
    assume "StoreHeight (first_block_height_to_submit (fold apply_action zs st)) \<in> set zs"
    with interleaving_set [OF zs(1)] obtain tx where tx: "tx \<in> set txs"
      "StoreHeight (first_block_height_to_submit st') \<in> set (task_actions tx (fst (outcome tx)) (snd (outcome tx)))"
      using zs(2) by auto
    from task_stores [OF this(2)] show ?thesis using Inr tx(1) by blast
  qed (simp add: zs(2))
qed

text \<open>The heights whose blocks were fetched have no gap.\<close>

lemma prefix_closed:
  assumes "m \<in> set (takeWhile P (word_range_incl a b :: u64 list))" "a \<le> h" "h \<le> m"
  shows "h \<in> set (takeWhile P (word_range_incl a b))"
proof -
  let ?r = "word_range_incl a b :: u64 list"
  have "m \<le> b" using set_takeWhileD [OF assms(1)] by (simp add: set_word_range_incl)
  then have "h \<in> set ?r" using assms(2,3) by (simp add: set_word_range_incl)
  moreover have "sorted_wrt (<) (takeWhile P ?r @ dropWhile P ?r)" using sorted_range by simp
  then have "h \<notin> set (dropWhile P ?r)" using assms(1,3) unfolding sorted_wrt_append by fastforce
  ultimately show ?thesis using set_append [of "takeWhile P ?r" "dropWhile P ?r"] by simp
qed

lemma prefix_last:
  assumes "hs = takeWhile P (word_range_incl a b :: u64 list)" "hs \<noteq> []"
  shows "last hs + 1 = a + word_of_nat (length hs)"
proof -
  let ?r = "word_range_incl a b :: u64 list"
  obtain n where n: "hs = take n ?r" unfolding assms(1) by (metis takeWhile_eq_take)
  have len: "length hs = min n (length ?r)" "0 < length hs" using n assms(2) by auto
  then have i: "length hs - 1 < length ?r" "length hs - 1 < n" by linarith+
  have "unat (?r ! (length hs - 1)) = map unat ?r ! (length hs - 1)" using i by simp
  also have "\<dots> = unat a + (length hs - 1)"
    using i length_map [of unat ?r] unfolding map_unat_word_range(2) by (simp del: upt_Suc)
  finally have "?r ! (length hs - 1) = a + word_of_nat (length hs - 1)" by (rule word_offset)
  moreover have "last hs = ?r ! (length hs - 1)" using i n assms(2) by (simp add: last_conv_nth)
  ultimately show ?thesis using len(2) by (simp add: of_nat_diff algebra_simps)
qed

lemma signed_last_height:
  assumes "sign_submit_blocks key signer to_vec headers batch_size = Inr txs" "tx \<in> set txs"
  shows "last_block_height tx \<in> set (map fst headers)"
proof -
  from assms(1) obtain response where key: "key = Inr response"
    by (cases key) (simp_all add: sign_submit_blocks_def)
  then obtain n where n: "response_kind response = AccessKey n"
    using assms(1) by (cases "response_kind response") (simp_all add: sign_submit_blocks_def)
  from sign_submit_blocks_Inr [OF assms(1) [unfolded key] n] obtain parts where
    parts: "concat parts = headers" "length txs = length parts"
      "\<forall>k < length parts. parts ! k \<noteq> [] \<and> last_block_height (txs ! k) = fst (last (parts ! k))" by blast
  from assms(2) obtain k where k: "k < length txs" "tx = txs ! k" by (auto simp: in_set_conv_nth)
  have "parts ! k \<noteq> []" "last_block_height tx = fst (last (parts ! k))" using parts k by auto
  then have "last (parts ! k) \<in> set (parts ! k)" by simp
  moreover have "parts ! k \<in> set parts" using parts(2) k(1) by simp
  ultimately have "last (parts ! k) \<in> set headers" using parts(1) by auto
  then show ?thesis using \<open>last_block_height tx = _\<close> by simp
qed

text \<open>What an iteration fetches when the node's chain ends at \<open>latest\<close>, and the transactions it then signs.\<close>

definition fetched_blocks :: "('h, 'x, 'a, 'tx) iteration \<Rightarrow> relay_state \<Rightarrow> u64 \<Rightarrow> (u64 \<times> 'h \<times> 'x) list" where
  "fetched_blocks it st latest = fetch_blocks_to_submit (it_tasks it) (first_block_height_to_submit st)
     (min latest (saturating_add_u64 (first_block_height_to_submit st) (current_fetch_size (relay_sizer st))))"

definition signed_in :: "('h, 'x, 'a, 'tx) iteration \<Rightarrow> relay_state \<Rightarrow> u64 \<Rightarrow> 'tx signed_submit list attempt" where
  "signed_in it st latest = sign_submit_blocks (it_key it) (it_signer it) (it_to_vec it) (fetched_blocks it st latest)
     (unat (current_batch_size (relay_sizer st)))"

text \<open>
  The three ways in which an iteration moves the height: the fetched blocks are on the contract already, a
  transaction of this iteration succeeded, or a transaction of this iteration asked for a reset.
\<close>

definition skipped_to :: "host \<Rightarrow> ('h \<Rightarrow> h256) \<Rightarrow> ('h, 'x, 'a, 'tx) iteration \<Rightarrow> relay_state \<Rightarrow> u64 \<Rightarrow> bool" where
  "skipped_to env hash_of it st height \<longleftrightarrow> (\<exists>latest. node_block_count (it_node it) = Inr latest \<and> fetched_blocks it st latest \<noteq> [] \<and>
     is_block_hash_exists (it_near it) (h256_to_string env (hash_of (fst (snd (last (fetched_blocks it st latest)))))) = Inr True \<and>
     height = first_block_height_to_submit st + word_of_nat (length (fetched_blocks it st latest)))"

definition submitted_to :: "('h, 'x, 'a, 'tx) iteration \<Rightarrow> relay_state \<Rightarrow> u64 \<Rightarrow> bool" where
  "submitted_to it st height \<longleftrightarrow> (\<exists>latest txs tx gas. node_block_count (it_node it) = Inr latest \<and> signed_in it st latest = Inr txs \<and>
     tx \<in> set txs \<and> fst (it_outcome it tx) = Inr (Inr gas) \<and> height = last_block_height tx + 1)"

definition reset_to :: "('h, 'x, 'a, 'tx) iteration \<Rightarrow> relay_state \<Rightarrow> u64 \<Rightarrow> bool" where
  "reset_to it st height \<longleftrightarrow> (\<exists>latest txs tx c. node_block_count (it_node it) = Inr latest \<and> signed_in it st latest = Inr txs \<and>
     tx \<in> set txs \<and> wants_reset (fst (it_outcome it tx)) \<and> snd (it_outcome it tx) = Inr c \<and> height = c + 1)"

text \<open>In the first two cases every height between the old and the new one was fetched.\<close>

lemma sync_iteration_height:
  assumes run: "sync_iteration env hash_of it st st'" and honest: "honest_tasks (it_tasks it)"
  shows "first_block_height_to_submit st' = first_block_height_to_submit st \<or>
    reset_to it st (first_block_height_to_submit st') \<or>
    ((skipped_to env hash_of it st (first_block_height_to_submit st') \<or> submitted_to it st (first_block_height_to_submit st')) \<and>
     (\<forall>h. first_block_height_to_submit st \<le> h \<and> h < first_block_height_to_submit st' \<longrightarrow> fetched (it_tasks it h) \<noteq> None))"
proof (cases "node_block_count (it_node it)")
  case (Inl e)
  then show ?thesis using run by (simp add: sync_iteration_def)
next
  case (Inr n)
  let ?run = "it_tasks it" and ?a = "first_block_height_to_submit st"
  define b where "b = min n (saturating_add_u64 ?a (current_fetch_size (relay_sizer st)))"
  define hs where "hs = takeWhile (\<lambda>h. fetched (?run h) \<noteq> None) (word_range_incl ?a b)"
  define blocks where "blocks = fetched_blocks it st n"
  have fetch: "fetch_blocks_to_submit ?run ?a b = blocks" unfolding blocks_def fetched_blocks_def b_def ..
  have blocks: "blocks = map (the \<circ> fetched \<circ> ?run) hs" unfolding fetch [symmetric] hs_def by (rule fetch_prefix [OF honest])
  have fst_blocks: "map fst blocks = hs"
  proof -
    have "fst (the (fetched (?run h))) = h" if "h \<in> set hs" for h
      using set_takeWhileD [OF that [unfolded hs_def]] by (rule_tac honest_cases [OF honest, of h]) auto
    then show ?thesis unfolding blocks by (simp add: map_idI)
  qed
  have passed: "\<forall>h. ?a \<le> h \<and> h < m + 1 \<longrightarrow> fetched (?run h) \<noteq> None" if "m \<in> set hs" for m
  proof (intro allI impI)
    fix h assume h: "?a \<le> h \<and> h < m + 1"
    then have "h \<le> m" by (metis inc_le leD not_le_imp_less)
    then have "h \<in> set hs" using prefix_closed that h unfolding hs_def by blast
    then show "fetched (?run h) \<noteq> None" unfolding hs_def by (rule set_takeWhileD [THEN conjunct2])
  qed
  obtain skip st1 where chk: "check_submission_skipped (it_near it)
      (h256_to_string env (hash_of (fst (snd (last blocks))))) (word_of_nat (length blocks)) st = (skip, st1)"
    by (rule prod.exhaust)
  from run have cases: "if blocks = [] then st' = st else if skip = Inr True then st' = st1
      else prepare_and_submit_batches (signed_in it st n) (it_outcome it) st1 st'"
    unfolding sync_iteration_def signed_in_def Inr sum.case Let_def b_def [symmetric] fetch blocks_def [symmetric] chk prod.case .
  consider "blocks = []" | "blocks \<noteq> []" "skip = Inr True" | "blocks \<noteq> []" "skip \<noteq> Inr True" by blast
  then show ?thesis
  proof cases
    case 1
    then show ?thesis using cases by simp
  next
    case 2
    then have "hs \<noteq> []" "length blocks = length hs" unfolding blocks by auto
    moreover from chk 2(2) have st1: "is_block_hash_exists (it_near it) (h256_to_string env (hash_of (fst (snd (last blocks))))) = Inr True"
      "first_block_height_to_submit st1 = ?a + word_of_nat (length blocks)"
      by (auto simp: check_submission_skipped_def split: sum.splits bool.splits)
    ultimately have "first_block_height_to_submit st' = last hs + 1" using prefix_last [OF hs_def] cases 2 by simp
    moreover have "skipped_to env hash_of it st (first_block_height_to_submit st')"
      unfolding skipped_to_def using Inr st1 cases 2 by (intro exI [of _ n]) (simp add: blocks_def)
    ultimately show ?thesis using passed [OF last_in_set [OF \<open>hs \<noteq> []\<close>]] by simp
  next
    case 3
    then have st1: "st1 = st" using chk by (auto simp: check_submission_skipped_def split: sum.splits bool.splits)
    have "prepare_and_submit_batches (signed_in it st n) (it_outcome it) st st'" using cases 3 st1 by simp
    from submitted_height [OF this] show ?thesis
    proof (elim disjE exE conjE)
      fix txs tx gas
      assume txs: "signed_in it st n = Inr txs" "tx \<in> set txs" and
        tx: "fst (it_outcome it tx) = Inr (Inr gas)" "first_block_height_to_submit st' = last_block_height tx + 1"
      from signed_last_height [OF txs [unfolded signed_in_def]] have "last_block_height tx \<in> set hs"
        unfolding blocks_def [symmetric] fst_blocks .
      moreover have "submitted_to it st (first_block_height_to_submit st')" using Inr txs tx unfolding submitted_to_def by blast
      ultimately show ?thesis using passed tx(2) by simp
    next
      fix txs tx c
      assume "signed_in it st n = Inr txs" "tx \<in> set txs" "wants_reset (fst (it_outcome it tx))" "snd (it_outcome it tx) = Inr c"
        "first_block_height_to_submit st' = c + 1"
      then show ?thesis using Inr unfolding reset_to_def by blast
    qed simp
  qed
qed

section \<open>The arguments of initialisation\<close>

text \<open>A run of headers in which each names its predecessor.\<close>

definition header_run :: "('h header_base_scheme \<Rightarrow> h256) \<Rightarrow> 'h header_base_scheme list \<Rightarrow> bool" where
  "header_run hash_of hs \<longleftrightarrow> successively (\<lambda>p h. prev_block_hash h = hash_of p) hs"

lemma walk_back_run:
  assumes "header_run hash_of (hs @ [h])" "\<forall>p \<in> set hs. \<exists>x. get_aux (hash_of p) = Inr (p, x)"
  shows "walk_back get_aux (length hs) h = Inr (rev hs)"
  using assms
proof (induction hs arbitrary: h rule: rev_induct)
  case (snoc p hs)
  then have "header_run hash_of (hs @ [p])" "prev_block_hash h = hash_of p"
    by (auto simp: header_run_def successively_append_iff)
  moreover obtain x where "get_aux (hash_of p) = Inr (p, x)" using snoc.prems(2) by auto
  ultimately show ?case using snoc.IH snoc.prems(2) by (simp add: expect_def)
qed simp

text \<open>From a node that has the headers, the arguments are these headers, from the oldest to the initial height.\<close>

lemma init_contract_args_run:
  assumes "header_run hash_of hs" "hs \<noteq> []" "\<forall>h \<in> set hs. \<exists>x. get_aux (hash_of h) = Inr (h, x)"
    and "node_block_hash node (init_height conf) = Inr (hash_of (last hs))"
    and "unat (num_of_blcoks_to_submit conf) = length hs"
  shows "init_contract_args hash_of node get_aux conf = Inr
    \<lparr>genesis_block_hash = hash_of (hd hs),
     genesis_block_height = init_height conf - num_of_blcoks_to_submit conf + 1,
     arg_skip_pow_verification = init_skip_pow_verification conf,
     arg_gc_threshold = init_gc_threshold conf, arg_network = init_network conf, submit_blocks_arg = hs\<rparr>"
proof -
  from assms(2) obtain ps h where hs: "hs = ps @ [h]" by (metis append_butlast_last_id)
  have "walk_back get_aux (unat (num_of_blcoks_to_submit conf) - 1) h = Inr (rev ps)"
    using walk_back_run [of hash_of ps h get_aux] assms(1,3,5) by (simp add: hs)
  moreover obtain x where "get_aux (hash_of h) = Inr (h, x)" using assms(3) hs by auto
  ultimately show ?thesis using assms(4) by (simp add: init_contract_args_def expect_def hs Let_def)
qed

lemma run_hash_linked:
  "header_run (header_hash C env) hs \<Longrightarrow> (\<And>h. prev_block_hash (into_light C h) = prev_block_hash h) \<Longrightarrow> hash_linked C env hs"
  unfolding header_run_def by (induction C env hs rule: hash_linked.induct) simp_all

lemma sign_chunks_total:
  assumes "\<And>bs. \<exists>args. to_vec bs = Inr args" "\<And>n. \<exists>r. key_query signer n = Inr r" "[] \<notin> set cs"
  shows "\<exists>txs. sign_chunks signer to_vec n cs = Inr txs"
  using assms(3)
proof (induction cs arbitrary: n)
  case (Cons c cs)
  then obtain txs where "sign_chunks signer to_vec (n + 1) cs = Inr txs" by auto
  moreover obtain args where "to_vec (map snd c) = Inr args" using assms(1) by blast
  moreover obtain r where "key_query signer (Some n) = Inr r" using assms(2) by blast
  ultimately show ?case using Cons.prems by (auto simp: sign_tx_def)
qed simp

lemma sign_submit_blocks_total:
  assumes "\<And>bs. \<exists>args. to_vec bs = Inr args" "\<And>n. \<exists>r. key_query signer n = Inr r"
    and "response_kind response = AccessKey n" "0 < batch_size"
  shows "\<exists>txs. sign_submit_blocks (Inr response) signer to_vec headers batch_size = Inr txs"
  using sign_chunks_total [where to_vec = to_vec and signer = signer and cs = "chunks batch_size headers", OF assms(1,2)] chunks_size [of "[]" batch_size headers] assms(3,4)
  by (auto simp: sign_submit_blocks_def)

lemma first_init_height:
  fixes h n :: u64
  assumes "unat n = k" "k \<le> Suc (unat h)" "0 < k"
  shows "unat (h - n + 1) + k = Suc (unat h)"
proof -
  have "unat h < 2 ^ 64" using unsigned_less [of h] by simp
  then have "unat (word_of_nat (Suc (unat h) - k) :: u64) = Suc (unat h) - k"
    using assms(3) by (simp add: unat_of_nat)
  moreover have "word_of_nat (Suc (unat h) - k) = h - n + 1"
    using assms by (auto simp: of_nat_diff)
  ultimately show ?thesis using assms(2) by simp
qed

section \<open>The answer of the contract\<close>

text \<open>
  The outcome of a transaction whose call of the contract gave a result. \<open>report\<close> is the debug text of the
  failure, which the runtime makes from a panic, and \<open>value\<close> the encoded return value.
\<close>

definition contract_outcome :: "(panic \<Rightarrow> string) \<Rightarrow> ('x \<Rightarrow> u8 list) \<Rightarrow> u64 \<Rightarrow> u64 list \<Rightarrow> 'x result \<Rightarrow> tx_outcome" where
  "contract_outcome report value gas receipts r =
     \<lparr>outcome_status = (case r of Inl p \<Rightarrow> Failure (report p) | Inr x \<Rightarrow> SuccessValue (value x)),
      transaction_gas_burnt = gas, receipts_gas_burnt = receipts\<rparr>"

text \<open>What the runtime promises: the text of a panic is part of the report, running out of gas is reported as such.\<close>

definition faithful_report :: "(panic \<Rightarrow> string) \<Rightarrow> bool" where
  "faithful_report report \<longleftrightarrow> (\<forall>m. \<exists>pre post. report (Panic m) = pre @ m @ post) \<and>
     str_find ''PrevBlockNotFound'' (report GasExceeded) = None \<and>
     str_find ''Exceeded the maximum amount of gas'' (report GasExceeded) \<noteq> None"

definition reaction :: "'tx signed_submit \<Rightarrow> u64 \<Rightarrow> tx_outcome \<Rightarrow> relay_action list" where
  "reaction tx c outcome = task_actions tx (Inr (parse_submit_blocks_response (Some outcome))) (Inr c)"

lemma reaction_to_result:
  assumes "faithful_report report"
  shows "r = Inl (Panic ''PrevBlockNotFound'') \<Longrightarrow>
      reaction tx c (contract_outcome report value gas receipts r) = [StoreHeight (c + 1)]"
    and "r = Inl GasExceeded \<Longrightarrow>
      reaction tx c (contract_outcome report value gas receipts r) = [GasExceededSizer, StoreHeight (c + 1)]"
    and "r = Inr x \<Longrightarrow> first_block_height_to_submit (fold apply_action (reaction tx c (contract_outcome report value gas receipts r)) st) =
      last_block_height tx + 1"
proof -
  obtain pre post where "report (Panic ''PrevBlockNotFound'') = pre @ ''PrevBlockNotFound'' @ post"
    using assms unfolding faithful_report_def by blast
  then have "str_find ''PrevBlockNotFound'' (report (Panic ''PrevBlockNotFound'')) \<noteq> None"
    using str_find_occurs by metis
  then show "r = Inl (Panic ''PrevBlockNotFound'') \<Longrightarrow>
      reaction tx c (contract_outcome report value gas receipts r) = [StoreHeight (c + 1)]"
    by (simp add: reaction_def task_actions_def parse_submit_blocks_response_def contract_outcome_def)
  show "r = Inl GasExceeded \<Longrightarrow>
      reaction tx c (contract_outcome report value gas receipts r) = [GasExceededSizer, StoreHeight (c + 1)]"
    using assms by (simp add: faithful_report_def reaction_def task_actions_def parse_submit_blocks_response_def contract_outcome_def)
  show "r = Inr x \<Longrightarrow> first_block_height_to_submit (fold apply_action (reaction tx c (contract_outcome report value gas receipts r)) st) =
      last_block_height tx + 1"
    by (simp split: sum.splits add: reaction_def task_actions_def parse_submit_blocks_response_def contract_outcome_def)
qed

end
