(* ===== verification/Relay_Progress.thy ===== *)
theory Relay_Progress
  imports Relay_Correctness Bitcoin "HOL-Library.Sublist"
begin

text \<open>
  The relayer and the contract together: the transactions that the relayer signs for the blocks of an honest
  node, executed by a Bitcoin contract whose tip is the parent of the first block, make the last block
  the tip. What the contract requires of the new headers is stated on the headers themselves
  (\<open>valid_run\<close>), what it requires of a transaction by the model \<open>execute\<close> of the runtime.
\<close>

section \<open>The rules for the new headers\<close>

text \<open>
  On the main network, with the headers \<open>hist\<close> before it: the difficulty of the header at this height is that of its
  predecessor, and after the last block of an interval the target of the predecessor scaled by the
  duration of the interval, kept between a quarter and four times two weeks, and capped. \<open>n\<close> blocks are known
  to be stored, an adjustment needs a whole interval.
\<close>

definition next_bits :: "nat \<Rightarrow> btc_header list \<Rightarrow> nat \<Rightarrow> u32 \<Rightarrow> bool" where
  "next_bits n hist height b \<longleftrightarrow>
     (if height mod 2016 \<noteq> 0 then b = bits (last hist)
      else 2016 \<le> n \<and> target_val (bits (last hist)) \<le> val (pow_limit (get_bitcoin_config Mainnet)) \<and>
        (\<exists>x. target_to_bits x = Inr b \<and> val x = min (val (pow_limit (get_bitcoin_config Mainnet)))
          (target_val (bits (last hist)) * nat (clamp 302400 4838400
            (i64_from_u32 (time (last hist)) - i64_from_u32 (time (hist ! (length hist - 2016))))) div 1209600)))"

text \<open>
  Its time is after the median of the last eleven and at most two hours ahead of the clock, its version is at least 4 and its
  hash meets its target.
\<close>

definition valid_next :: "host \<Rightarrow> nat \<Rightarrow> btc_header list \<Rightarrow> nat \<Rightarrow> btc_header \<Rightarrow> bool" where
  "valid_next env n hist height h \<longleftrightarrow> next_bits n hist height (bits h) \<and>
     median_of (map (\<lambda>k. time (hist ! (length hist - 1 - k))) [0 ..< 11]) < time h \<and>
     unat (block_timestamp_ms env) div 1000 + 7200 < 2 ^ 32 \<and>
     unat (time h) \<le> unat (block_timestamp_ms env) div 1000 + 7200 \<and> sint (version h) \<ge> 4 \<and>
     val (u256_from_le_bytes (h256_bytes (btc_block_hash_pow env h))) \<le> target_val (bits h)"

fun valid_run :: "host \<Rightarrow> nat \<Rightarrow> btc_header list \<Rightarrow> nat \<Rightarrow> btc_header list \<Rightarrow> bool" where
  "valid_run env n hist height [] \<longleftrightarrow> True"
| "valid_run env n hist height (h # hs) \<longleftrightarrow>
     valid_next env n hist height h \<and> valid_run env n (hist @ [h]) (Suc height) hs"

lemma valid_run_append:
  "valid_run env n hist height (xs @ ys) \<longleftrightarrow>
    valid_run env n hist height xs \<and> valid_run env n (hist @ xs) (height + length xs) ys"
  by (induction xs arbitrary: hist height) simp_all

text \<open>The contract skips the checks, or it is one of the main network and the headers meet the rules.\<close>

definition follows_rules :: "btc_client \<Rightarrow> host \<Rightarrow> nat \<Rightarrow> btc_header list \<Rightarrow> nat \<Rightarrow> btc_header list \<Rightarrow> bool" where
  "follows_rules s env n hist height hs \<longleftrightarrow> skip_pow_verification s \<or>
     network s = Mainnet \<and> 11 < n \<and> valid_run env n hist height hs"

lemma follows_rules_append:
  "follows_rules s env n hist height (xs @ ys) \<longleftrightarrow>
    follows_rules s env n hist height xs \<and> follows_rules s env n (hist @ xs) (height + length xs) ys"
  by (auto simp: follows_rules_def valid_run_append)

lemma follows_rules_Cons:
  "follows_rules s env n hist height (h # hs) \<longleftrightarrow>
    follows_rules s env n hist height [h] \<and> follows_rules s env n (hist @ [h]) (Suc height) hs"
  using follows_rules_append [of s env n hist height "[h]" hs] by simp

section \<open>The contract on the way\<close>

text \<open>
  In the state \<open>s\<close> the tip of the main chain has the given hash, work and height; at least \<open>n\<close> blocks are stored,
  the newest ones of the history \<open>hist\<close>; the settings are those of \<open>s0\<close>.
\<close>

definition at_tip :: "(h256 \<times> unit btc_header_ext header_base_scheme) set \<Rightarrow> btc_ext_header \<Rightarrow> btc_client \<Rightarrow> nat \<Rightarrow>
    btc_header list \<Rightarrow> h256 \<Rightarrow> nat \<Rightarrow> nat \<Rightarrow> btc_client \<Rightarrow> bool" where
  "at_tip S g s0 n hist tip_hash work height s \<longleftrightarrow>
     (\<exists>c. chain_inv S g c s \<and> same_config s0 s \<and> n \<le> length c \<and> suffix (map block_header c) hist \<and>
       block_hash (last c) = tip_hash \<and> val (chain_work (last c)) = work \<and> unat (block_height (last c)) = height)"

definition known_header :: "(h256 \<times> unit btc_header_ext header_base_scheme) set \<Rightarrow> host \<Rightarrow> btc_header \<Rightarrow> bool" where
  "known_header S env h \<longleftrightarrow> wf_btc_header h \<and> (btc_block_hash env h, h) \<in> S"

text \<open>The rules on headers are those that the contract checks on its stored chain.\<close>

lemma suffix_from_end: "suffix xs ys \<Longrightarrow> k < length xs \<Longrightarrow> ys ! (length ys - Suc k) = xs ! (length xs - Suc k)"
  by (auto simp: suffix_def nth_append)

lemma valid_next_accepted:
  assumes cf: "collision_free S g" and inv: "chain_inv S g c s" and net: "network s = Mainnet"
    and n: "11 < n" "n \<le> length c" and hist: "suffix (map block_header c) hist"
    and valid: "valid_next env n hist (Suc (unat (block_height (last c)))) h"
    and parent: "prev_block_hash h = block_hash (last c)"
    and work: "val (chain_work (last c)) + block_work (bits h) < B256" and height: "Suc (unat (block_height (last c))) < 2 ^ 64"
  shows "\<exists>s'. btc_submit_block_header env h False s = Inr s'"
proof -
  have main: "has_main_chain s c" using cf inv by (auto simp: has_main_chain_def)
  have ne: "c \<noteq> []" using n by auto
  have nth: "hist ! (length hist - Suc k) = block_header (c ! (length c - Suc k))" if "k < length c" for k
    using suffix_from_end [OF hist, of k] that by simp
  have last: "last hist = block_header (last c)"
    using hist ne by (auto simp: suffix_def last_map)
  have tip: "last c = c ! (length c - 1)" using ne by (rule last_conv_nth)
  have "(\<lambda>k. time (hist ! (length hist - 1 - k))) k = (\<lambda>k. time (block_header (c ! (length c - 1 - k)))) k" if "k < 11" for k
    using nth [of k] that n by simp
  then have times: "map (\<lambda>k. time (hist ! (length hist - 1 - k))) [0 ..< 11] =
      map (\<lambda>k. time (block_header (c ! (length c - 1 - k)))) [0 ..< 11]" by (intro map_cong) simp_all
  have median: "median_at c (length c - 1) < time h"
    using valid unfolding valid_next_def times median_at_def by blast
  have bits: "btc_get_next_work_required (loop_gas env) (btc_get_config s) h (last c) s = Inr (bits h)"
  proof (cases "Suc (unat (block_height (last c))) mod 2016 = 0")
    case False
    then show ?thesis
      using valid btc_next_work_mainnet [of "last c" "loop_gas env" h s] height net
      by (simp add: valid_next_def next_bits_def last btc_get_config_def del: get_bitcoin_config.simps)
  next
    case True
    have req: "2016 \<le> n" "target_val (bits (block_header (last c))) \<le> val (pow_limit (get_bitcoin_config Mainnet))"
      using valid True unfolding valid_next_def next_bits_def last by auto
    have first: "hist ! (length hist - 2016) = block_header (c ! (length c - 1 - 2015))"
      using nth [of 2015] req(1) n by simp
    have "\<exists>x. btc_get_next_work_required (loop_gas env) (get_bitcoin_config Mainnet) h (last c) s = target_to_bits x \<and>
      val x = min (val (pow_limit (get_bitcoin_config Mainnet)))
        (target_val (bits (last hist)) * nat (clamp 302400 4838400
          (i64_from_u32 (time (last hist)) - i64_from_u32 (time (hist ! (length hist - 2016))))) div 1209600)"
      unfolding last first unfolding tip
      by (rule btc_next_work_adjust [OF main]) (use req n True tip in simp_all)
    moreover have "\<exists>y. target_to_bits y = Inr (bits h) \<and> val y = min (val (pow_limit (get_bitcoin_config Mainnet)))
        (target_val (bits (last hist)) * nat (clamp 302400 4838400
          (i64_from_u32 (time (last hist)) - i64_from_u32 (time (hist ! (length hist - 2016))))) div 1209600)"
      using valid True unfolding valid_next_def next_bits_def by auto
    ultimately show ?thesis unfolding btc_get_config_def net by (metis val_inject)
  qed
  have "11 < length c" using n by simp
  then show ?thesis
    using btc_extend_tip [OF main _ parent work] bits median valid height by (simp add: valid_next_def)
qed

text \<open>Each header names the one before it, the first one the given hash.\<close>

fun extends :: "host \<Rightarrow> h256 \<Rightarrow> btc_header list \<Rightarrow> bool" where
  "extends env tip_hash [] \<longleftrightarrow> True"
| "extends env tip_hash (h # hs) \<longleftrightarrow> prev_block_hash h = tip_hash \<and> extends env (btc_block_hash env h) hs"

definition end_hash :: "host \<Rightarrow> h256 \<Rightarrow> btc_header list \<Rightarrow> h256" where
  "end_hash env tip_hash hs = (if hs = [] then tip_hash else btc_block_hash env (last hs))"

lemma end_hash_simps [simp]:
  "end_hash env a [] = a" "end_hash env a (h # hs) = end_hash env (btc_block_hash env h) hs"
  by (simp_all add: end_hash_def)

lemma extends_append [simp]:
  "extends env a (xs @ ys) \<longleftrightarrow> extends env a xs \<and> extends env (end_hash env a xs) ys"
  by (induction xs arbitrary: a) auto

lemma end_hash_append [simp]: "end_hash env a (xs @ ys) = end_hash env (end_hash env a xs) ys"
  by (induction xs arbitrary: a) auto

lemma submit_child:
  assumes cf: "collision_free S g" and tip: "at_tip S g s0 n hist a w k s" and known: "known_header S env h"
    and rules: "follows_rules s0 env n hist (Suc k) [h]"
    and link: "prev_block_hash h = a" and work: "w + block_work (bits h) < B256" and height: "Suc k < 2 ^ 64"
  shows "\<exists>s'. submit_header bitcoin env h (skip_pow_verification s) s = Inr s' \<and>
    at_tip S g s0 n (hist @ [h]) (btc_block_hash env h) (w + block_work (bits h)) (Suc k) s'"
proof -
  from tip obtain c where c: "chain_inv S g c s" "same_config s0 s" "n \<le> length c" "suffix (map block_header c) hist"
    "block_hash (last c) = a" "val (chain_work (last c)) = w" "unat (block_height (last c)) = k" unfolding at_tip_def by blast
  note D = chain_invD [OF c(1)]
  have p: "get_prev_header s h = Inr (last c)" using D(9,7) c(5) link by (simp add: get_prev_header_def)
  obtain x where x: "add_work (chain_work (last c)) (bits h) = Inr x" "val x = w + block_work (bits h)"
    using add_work_total [of "chain_work (last c)" "bits h"] work c(6) by auto
  obtain m where m: "checked_add 1 (block_height (last c)) = Inr m" "unat m = Suc k"
    using checked_suc [of "block_height (last c)"] height c(7) by auto
  let ?e = "\<lparr>block_header = h, block_hash = btc_block_hash env h, chain_work = x, block_height = m\<rparr>"
  let ?s = "(store_block_header ?e s)\<lparr>mainchain_tip_blockhash := btc_block_hash env h\<rparr>"
  have ch: "child_block S (last c) ?e"
    using known c(5-7) link x(2) m(2) by (simp add: child_block_def known_header_def)
  then have inner: "submit_block_header_inner env ?e (last c) s = Inr ?s"
    using inner_on_tip [of "last c" s ?e env] D(7) by (simp add: child_block_def)
  have checks: "btc_check_pow env s h (last c) = Inr () \<and> pow_ok (btc_block_hash_pow env h) (bits h)"
    if "\<not> skip_pow_verification s"
  proof -
    have "network s = Mainnet" "11 < n" "valid_next env n hist (Suc (unat (block_height (last c)))) h"
      using rules that c(2,7) by (simp_all add: follows_rules_def same_config_def)
    then obtain s' where "btc_submit_block_header env h False s = Inr s'"
      using valid_next_accepted [OF cf c(1) _ _ c(3,4), of env h] link work height c(5-7) by auto
    then show ?thesis unfolding btc_submit_block_header_def
    proof (rule submit_block_header_Inr)
      fix q assume "headers_pool s (prev_block_hash (btc_into_light h)) = Some q" and
        "\<not> False \<Longrightarrow> btc_check_pow env s h q = Inr () \<and> pow_ok (btc_block_hash_pow env h) (bits h)"
      moreover from this(1) have "q = last c" using p by (simp add: get_prev_header_def btc_into_light_def)
      ultimately show ?thesis by simp
    qed
  qed
  have "submit_header bitcoin env h (skip_pow_verification s) s =
      submit_block_header btc_block_hash btc_block_hash_pow btc_into_light btc_check_pow env h (skip_pow_verification s) s"
    by (simp add: bitcoin_def btc_submit_block_header_def)
  also have "\<dots> = Inr ?s"
  proof (cases "skip_pow_verification s")
    case True
    then show ?thesis
      by (simp only: submit_block_header_def btc_into_light_def p x(1) m(1) Let_def rbind_simps inner if_True)
  next
    case False
    with checks have "btc_check_pow env s h (last c) = Inr ()" "pow_ok (btc_block_hash_pow env h) (bits h)" by auto
    with False show ?thesis
      by (simp only: submit_block_header_def btc_into_light_def p x(1) m(1) Let_def rbind_simps req_simps inner if_False)
  qed
  finally have run: "submit_header bitcoin env h (skip_pow_verification s) s = Inr ?s" .
  have "chain_inv S g (c @ [?e]) ?s" using inner_extend [OF cf c(1) ch] by simp
  then have "at_tip S g s0 n (hist @ [h]) (btc_block_hash env h) (w + block_work (bits h)) (Suc k) ?s"
    using c(2-4) x(2) m(2) unfolding at_tip_def
    by (intro exI [of _ "c @ [?e]"]) (auto simp: same_config_def store_block_header_def suffix_def)
  then show ?thesis using run by blast
qed

lemma submit_all:
  assumes cf: "collision_free S g"
  shows "at_tip S g s0 n hist a w k s \<Longrightarrow> \<forall>h \<in> set hs. known_header S env h \<Longrightarrow> follows_rules s0 env n hist (Suc k) hs \<Longrightarrow>
    extends env a hs \<Longrightarrow> w + total_work hs < B256 \<Longrightarrow> k + length hs < 2 ^ 64 \<Longrightarrow>
    \<exists>s'. for_each (\<lambda>h s. submit_header bitcoin env h (skip_pow_verification s) s) hs s = Inr s' \<and>
      at_tip S g s0 n (hist @ hs) (end_hash env a hs) (w + total_work hs) (k + length hs) s'"
proof (induction hs arbitrary: hist a w k s)
  case (Cons h hs)
  have tw: "total_work (h # hs) = block_work (bits h) + total_work hs" by (simp add: total_work_def)
  have rules: "follows_rules s0 env n hist (Suc k) [h]" "follows_rules s0 env n (hist @ [h]) (Suc (Suc k)) hs"
    using Cons.prems(3) follows_rules_Cons by blast+
  obtain s1 where s1: "submit_header bitcoin env h (skip_pow_verification s) s = Inr s1"
    "at_tip S g s0 n (hist @ [h]) (btc_block_hash env h) (w + block_work (bits h)) (Suc k) s1"
    using submit_child [OF cf Cons.prems(1) _ rules(1)] Cons.prems(2,4-6) tw by auto
  from Cons.IH [OF s1(2) _ rules(2)] Cons.prems(2,4-6) tw show ?case by (simp add: s1(1) add.assoc)
qed (simp add: total_work_def)

lemma collect_keeps_tip:
  assumes cf: "collision_free S g" and tip: "at_tip S g s0 n hist a w k s" and n: "n \<le> unat (gc_threshold s0)"
    and allowed: "\<not> is_paused env ''run_mainchain_gc'' \<or> caller_has_role env UnrestrictedRunGC"
    and thr: "0 < gc_threshold s0" and k: "Suc k < 2 ^ 64"
  shows "\<exists>s'. run_mainchain_gc env batch s = Inr s' \<and> at_tip S g s0 n hist a w k s'"
proof -
  from tip obtain c where c: "chain_inv S g c s" "same_config s0 s" "n \<le> length c" "suffix (map block_header c) hist"
    "block_hash (last c) = a" "val (chain_work (last c)) = w" "unat (block_height (last c)) = k" unfolding at_tip_def by blast
  have "length c < 2 ^ 64" using chain_size [OF cf c(1)] c(7) k by linarith
  moreover have "0 < gc_threshold s" using thr c(2) by (simp add: same_config_def)
  ultimately obtain s' where s': "run_mainchain_gc env batch s = Inr s'" using gc_total [OF cf c(1) allowed] by blast
  let ?d = "gc_amount s (length c) batch"
  from gc_correct [OF cf c(1) s'] have d: "chain_inv S g (drop ?d c) s'" "same_config s s'" "?d < length c" by auto
  have "n \<le> length (drop ?d c)" using n c(2,3) by (auto simp: gc_amount_def same_config_def)
  moreover have "suffix (map block_header (drop ?d c)) hist"
    using c(4) suffix_order.trans [OF suffix_drop] by (metis drop_map)
  ultimately have "at_tip S g s0 n hist a w k s'"
    using d c(2,5-7) same_config_trans unfolding at_tip_def by (intro exI [of _ "drop ?d c"]) (auto simp: last_drop)
  then show ?thesis using s' by blast
qed

section \<open>The runtime\<close>

text \<open>
  What the NEAR runtime decides: the account of the contract, which accounts are trusted relayers and
  which roles they have, the gas that a call of \<open>submit_blocks\<close> burns, and the limit on the gas of a transaction.
\<close>

record runtime =
  rt_contract :: string
  rt_trusted :: "string \<Rightarrow> bool"
  rt_roles :: "string \<Rightarrow> role \<Rightarrow> bool"
  rt_gas_cost :: "btc_header list \<Rightarrow> btc_client \<Rightarrow> u64"
  rt_gas_limit :: u64

definition call_env :: "runtime \<Rightarrow> host \<Rightarrow> string \<Rightarrow> 128 word \<Rightarrow> host" where
  "call_env rt env caller attached =
     env\<lparr>is_trusted_relayer := rt_trusted rt caller, caller_has_role := rt_roles rt caller, attached_deposit := attached\<rparr>"

text \<open>
  One transaction on the contract, with the last nonce of the access key as part of the state. \<open>open_tx\<close> reads
  the signed transaction, \<open>decode\<close> its arguments. A transaction is refused if its nonce is used, or its gas is
  above the limit; it fails if it does not go to the contract's \<open>submit_blocks\<close>, if its gas does not
  suffice, and in every case in which the method panics, a deposit that is too small included. The balance of
  the signer and the age of the block hash in the transaction are left out.
\<close>

definition execute :: "runtime \<Rightarrow> ('tx \<Rightarrow> transaction) \<Rightarrow> (u8 list \<Rightarrow> btc_header list option) \<Rightarrow> (btc_client \<Rightarrow> u64) \<Rightarrow> host \<Rightarrow>
    'tx signed_submit \<Rightarrow> u64 \<times> btc_client \<Rightarrow> (u64 \<times> btc_client) result" where
  "execute rt open_tx decode usage env tx st =
     (let t = open_tx (signed_tx tx); (key_nonce, s) = st in
      req (key_nonce < tx_nonce t) ''InvalidNonce''
      (req (prepaid_gas t \<le> rt_gas_limit rt) ''TotalPrepaidGasExceeded''
      (req (receiver_id t = rt_contract rt) ''AccountDoesNotExist''
      (req (method_name t = ''submit_blocks'') ''MethodNotFound''
      (rbind (get_or (Panic ''Failed to deserialize input'') (decode (method_args t))) (\<lambda>headers.
       if prepaid_gas t < rt_gas_cost rt headers s then Inl GasExceeded
       else rbind (submit_blocks bitcoin usage (call_env rt env (signer_id t) (deposit t)) headers s) (\<lambda>(r, s').
         Inr (tx_nonce t, s'))))))))"

lemma call_env_simps [simp]:
  "btc_block_hash (call_env rt env who d) = btc_block_hash env"
  "btc_block_hash_pow (call_env rt env who d) = btc_block_hash_pow env"
  "block_timestamp_ms (call_env rt env who d) = block_timestamp_ms env"
  "is_paused (call_env rt env who d) = is_paused env"
  "storage_byte_cost (call_env rt env who d) = storage_byte_cost env"
  "is_trusted_relayer (call_env rt env who d) = rt_trusted rt who"
  "caller_has_role (call_env rt env who d) = rt_roles rt who"
  "attached_deposit (call_env rt env who d) = d"
  by (simp_all add: call_env_def fun_eq_iff btc_block_hash_def btc_block_hash_pow_def double_sha256_def)

lemma valid_run_call_env [simp]: "valid_run (call_env rt env who d) n hist height hs = valid_run env n hist height hs"
  by (induction hs arbitrary: hist height) (simp_all add: valid_next_def)

lemma rules_call_env [simp]:
  "follows_rules s (call_env rt env who d) = follows_rules s env"
  "known_header S (call_env rt env who d) = known_header S env"
  by (simp_all add: fun_eq_iff follows_rules_def known_header_def)

lemma links_call_env [simp]:
  "extends (call_env rt env who d) a hs = extends env a hs" "end_hash (call_env rt env who d) a hs = end_hash env a hs"
  by (induction hs arbitrary: a) simp_all

text \<open>The account may submit blocks and collect the old ones.\<close>

definition may_submit :: "runtime \<Rightarrow> host \<Rightarrow> string \<Rightarrow> bool" where
  "may_submit rt env who \<longleftrightarrow> \<not> is_paused env ''submit_blocks'' \<and>
     (rt_trusted rt who \<or> rt_roles rt who DAO \<or> rt_roles rt who UnrestrictedSubmitBlocks) \<and>
     (\<not> is_paused env ''run_mainchain_gc'' \<or> rt_roles rt who UnrestrictedRunGC)"

text \<open>
  What the relayer attaches is enough: for a call with at most \<open>batch\<close> headers, 300 Tgas are within the limit
  and cover the gas, and half a NEAR covers the storage that the state uses more after it, collection
  included, than before.
\<close>

definition affordable :: "runtime \<Rightarrow> (btc_client \<Rightarrow> u64) \<Rightarrow> host \<Rightarrow> nat \<Rightarrow> bool" where
  "affordable rt usage env batch \<longleftrightarrow> 300000000000000 \<le> rt_gas_limit rt \<and>
     (\<forall>hs s. length hs \<le> batch \<longrightarrow> rt_gas_cost rt hs s \<le> 300000000000000 \<and>
       (\<forall>s1 s2. for_each (\<lambda>h s. submit_header bitcoin env h (skip_pow_verification s) s) hs s = Inr s1 \<and>
         run_mainchain_gc env (word_of_nat (length hs)) s1 = Inr s2 \<longrightarrow>
         saturating_mul_w (storage_byte_cost env) (ucast (saturating_sub_w (usage s2) (usage s))) \<le> 5 * 10 ^ 23))"

lemma submit_blocks_on_tip:
  fixes rt env who
  defines "E \<equiv> call_env rt env who (5 * 10 ^ 23)"
  assumes cf: "collision_free S g" and tip: "at_tip S g s0 n hist a w k s" and n: "n \<le> unat (gc_threshold s0)"
    and may: "may_submit rt env who" and pays: "affordable rt usage E batch" "length hs \<le> batch" and thr: "0 < gc_threshold s0"
    and hs: "\<forall>h \<in> set hs. known_header S env h" "follows_rules s0 env n hist (Suc k) hs" "extends env a hs"
    and room: "w + total_work hs < B256" "Suc (k + length hs) < 2 ^ 64"
  shows "\<exists>r s'. submit_blocks bitcoin usage E hs s = Inr (r, s') \<and>
    at_tip S g s0 n (hist @ hs) (end_hash env a hs) (w + total_work hs) (k + length hs) s'"
proof -
  have "k + length hs < 2 ^ 64" using room(2) by simp
  from submit_all [OF cf tip, of hs E] hs room(1) this obtain s1 where
    s1: "for_each (\<lambda>h s. submit_header bitcoin E h (skip_pow_verification s) s) hs s = Inr s1"
      "at_tip S g s0 n (hist @ hs) (end_hash env a hs) (w + total_work hs) (k + length hs) s1"
    by (auto simp: E_def)
  have "\<not> is_paused E ''run_mainchain_gc'' \<or> caller_has_role E UnrestrictedRunGC"
    using may by (simp add: may_submit_def E_def)
  from collect_keeps_tip [OF cf s1(2) n this thr room(2), of "word_of_nat (length hs)"] obtain s2 where
    s2: "run_mainchain_gc E (word_of_nat (length hs)) s1 = Inr s2"
      "at_tip S g s0 n (hist @ hs) (end_hash env a hs) (w + total_work hs) (k + length hs) s2" by blast
  have "saturating_mul_w (storage_byte_cost E) (ucast (saturating_sub_w (usage s2) (usage s))) \<le> attached_deposit E"
    using pays s1(1) s2(1) unfolding affordable_def by (simp add: E_def)
  moreover have "\<not> is_paused E ''submit_blocks''"
    "is_trusted_relayer E \<or> caller_has_role E DAO \<or> caller_has_role E UnrestrictedSubmitBlocks"
    using may by (auto simp: may_submit_def E_def)
  ultimately show ?thesis using s1(1) s2
    by (auto simp: submit_blocks_def pause_guard_def trusted_relayer_guard_def Let_def)
qed

section \<open>Executing the transactions\<close>

lemma execute_batch:
  fixes rt env signer
  defines "E \<equiv> call_env rt env (signer_account signer) (5 * 10 ^ 23)"
  assumes cf: "collision_free S g" and tip: "at_tip S g s0 n hist a w k s" and n: "n \<le> unat (gc_threshold s0)"
    and thr: "0 < gc_threshold s0" and may: "may_submit rt env (signer_account signer)"
    and pays: "affordable rt usage E batch" "length part \<le> batch" and to: "contract_account signer = rt_contract rt"
    and tx: "submits signer to_vec m part (signed_tx tx)" "key_nonce < m" and sign: "\<And>t. open_tx (sign signer t) = t"
    and codec: "\<And>bs args. to_vec bs = Inr args \<Longrightarrow> \<forall>b \<in> set bs. wf_btc_header (fst b) \<Longrightarrow> decode args = Some (map fst bs)"
    and hs: "hs = map (fst \<circ> snd) part"
      "\<forall>h \<in> set hs. known_header S env h" "follows_rules s0 env n hist (Suc k) hs" "extends env a hs"
    and room: "w + total_work hs < B256" "Suc (k + length hs) < 2 ^ 64"
  shows "\<exists>s'. execute rt open_tx decode usage env tx (key_nonce, s) = Inr (m, s') \<and>
    at_tip S g s0 n (hist @ hs) (end_hash env a hs) (w + total_work hs) (k + length hs) s'"
proof -
  from tx(1) sign obtain t where t: "open_tx (signed_tx tx) = t" "tx_nonce t = m" "signer_id t = signer_account signer"
    "receiver_id t = rt_contract rt" "method_name t = ''submit_blocks''" "to_vec (map snd part) = Inr (method_args t)"
    "deposit t = 5 * 10 ^ 23" "prepaid_gas t = 300000000000000" by (auto simp: submits_def to)
  have "\<forall>b \<in> set (map snd part). wf_btc_header (fst b)" using hs(2) unfolding hs(1) by (auto simp: known_header_def)
  from codec [OF t(6) this] have dec: "decode (method_args t) = Some hs" by (simp add: hs(1))
  have len: "length hs \<le> batch" using pays(2) by (simp add: hs(1))
  then have gas: "\<not> prepaid_gas t < rt_gas_cost rt hs s" "prepaid_gas t \<le> rt_gas_limit rt"
    using pays(1) by (auto simp: affordable_def t(8) not_less)
  obtain r s' where s': "submit_blocks bitcoin usage E hs s = Inr (r, s')"
    "at_tip S g s0 n (hist @ hs) (end_hash env a hs) (w + total_work hs) (k + length hs) s'"
    using submit_blocks_on_tip [OF cf tip n may pays(1) [unfolded E_def] len thr hs(2-4) room] unfolding E_def by blast
  have "execute rt open_tx decode usage env tx (key_nonce, s) = Inr (m, s')"
    unfolding execute_def t(1) Let_def prod.case t(2-5,7) E_def [symmetric] dec using tx(2) gas
    by (simp add: s'(1))
  then show ?thesis using s'(2) by blast
qed

lemma execute_all:
  fixes rt env signer
  defines "E \<equiv> call_env rt env (signer_account signer) (5 * 10 ^ 23)"
  assumes cf: "collision_free S g" and n: "n \<le> unat (gc_threshold s0)" and thr: "0 < gc_threshold s0"
    and may: "may_submit rt env (signer_account signer)" and pays: "affordable rt usage E batch"
    and to: "contract_account signer = rt_contract rt" and sign: "\<And>t. open_tx (sign signer t) = t"
    and codec: "\<And>bs args. to_vec bs = Inr args \<Longrightarrow> \<forall>b \<in> set bs. wf_btc_header (fst b) \<Longrightarrow> decode args = Some (map fst bs)"
  shows "at_tip S g s0 n hist a w k s \<Longrightarrow> length txs = length parts \<Longrightarrow> \<forall>part \<in> set parts. length part \<le> batch \<Longrightarrow>
    (\<And>i. i < length parts \<Longrightarrow> submits signer to_vec (m + 1 + word_of_nat i) (parts ! i) (signed_tx (txs ! i))) \<Longrightarrow>
    unat m + length parts < 2 ^ 64 \<Longrightarrow> hs = map (fst \<circ> snd) (concat parts) \<Longrightarrow>
    \<forall>h \<in> set hs. known_header S env h \<Longrightarrow> follows_rules s0 env n hist (Suc k) hs \<Longrightarrow> extends env a hs \<Longrightarrow>
    w + total_work hs < B256 \<Longrightarrow> Suc (k + length hs) < 2 ^ 64 \<Longrightarrow>
    \<exists>s'. for_each (execute rt open_tx decode usage env) txs (m, s) = Inr (m + word_of_nat (length parts), s') \<and>
      at_tip S g s0 n (hist @ hs) (end_hash env a hs) (w + total_work hs) (k + length hs) s'"
proof (induction parts arbitrary: txs hist a w k s hs m)
  case (Cons part parts)
  then obtain tx txs' where txs: "txs = tx # txs'" "length txs' = length parts" by (cases txs) auto
  define xs where "xs = map (fst \<circ> snd) part"
  define ys where "ys = map (fst \<circ> snd) (concat parts)"
  have hs: "hs = xs @ ys" using Cons.prems(6) by (simp add: xs_def ys_def)
  have tw: "total_work hs = total_work xs + total_work ys" by (simp add: hs total_work_def)
  have next_nonce: "unat (m + 1) = Suc (unat m)" "m < m + 1"
    using Cons.prems(5) by (auto simp: unat_word_ariths word_less_nat_alt)
  have rules: "follows_rules s0 env n hist (Suc k) xs" "follows_rules s0 env n (hist @ xs) (Suc (k + length xs)) ys"
    using Cons.prems(8) by (auto simp: hs follows_rules_append)
  have tx: "submits signer to_vec (m + 1) part (signed_tx tx)" using Cons.prems(4) [of 0] by (simp add: txs)
  have len: "length part \<le> batch" using Cons.prems(3) by simp
  have "\<exists>s1. execute rt open_tx decode usage env tx (m, s) = Inr (m + 1, s1) \<and>
      at_tip S g s0 n (hist @ xs) (end_hash env a xs) (w + total_work xs) (k + length xs) s1"
    by (rule execute_batch [OF cf Cons.prems(1) n thr may pays [unfolded E_def] len to tx next_nonce(2) sign codec xs_def _ rules(1)])
       (use Cons.prems(7,9-11) tw in \<open>auto simp: hs\<close>)
  then obtain s1 where s1: "execute rt open_tx decode usage env tx (m, s) = Inr (m + 1, s1)"
    "at_tip S g s0 n (hist @ xs) (end_hash env a xs) (w + total_work xs) (k + length xs) s1" by blast
  have "\<exists>s'. for_each (execute rt open_tx decode usage env) txs' (m + 1, s1) = Inr (m + 1 + word_of_nat (length parts), s') \<and>
      at_tip S g s0 n ((hist @ xs) @ ys) (end_hash env (end_hash env a xs) ys) (w + total_work xs + total_work ys)
        (k + length xs + length ys) s'"
  proof (rule Cons.IH [OF s1(2) txs(2) _ _ _ ys_def _ rules(2)])
    show "submits signer to_vec (m + 1 + 1 + word_of_nat i) (parts ! i) (signed_tx (txs' ! i))" if "i < length parts" for i
      using Cons.prems(4) [of "Suc i"] that by (simp add: txs algebra_simps)
  qed (use Cons.prems(3,5,7,9-11) tw next_nonce(1) in \<open>auto simp: hs\<close>)
  then show ?case using s1(1) by (simp add: txs(1) hs tw [unfolded hs] algebra_simps)
qed (simp add: total_work_def)

section \<open>From the node to the contract\<close>

text \<open>
  The node has blocks at the heights from \<open>start\<close> to \<open>stop\<close>, linked, the first one to the block with the given
  hash.
\<close>

definition serves_chain :: "host \<Rightarrow> node \<Rightarrow> (h256 \<Rightarrow> (btc_header \<times> 'x) attempt) \<Rightarrow> (u64 \<Rightarrow> btc_header) \<Rightarrow> u64 \<Rightarrow> u64 \<Rightarrow> h256 \<Rightarrow> bool" where
  "serves_chain env node get_aux header start stop tip_hash \<longleftrightarrow>
     (\<forall>h. start \<le> h \<and> h \<le> stop \<longrightarrow>
       (\<exists>x. node_block_hash node h = Inr (btc_block_hash env (header h)) \<and> get_aux (btc_block_hash env (header h)) = Inr (header h, x)) \<and>
       prev_block_hash (header h) = (if h = start then tip_hash else btc_block_hash env (header (h - 1))))"

lemma serves_extends:
  assumes "serves_chain env node get_aux header start stop a" "start \<le> stop"
  shows "extends env a (map header (word_range_incl start stop))"
    "end_hash env a (map header (word_range_incl start stop)) = btc_block_hash env (header stop)"
proof -
  let ?hs = "\<lambda>m. map (\<lambda>k. header (word_of_nat k)) [unat start ..< m]"
  have step: "extends env a (?hs m) \<and>
      end_hash env a (?hs m) = (if m = unat start then a else btc_block_hash env (header (word_of_nat (m - 1))))"
    if "unat start \<le> m" "m \<le> Suc (unat stop)" for m
    using that
  proof (induction m rule: dec_induct)
    case (step m)
    let ?h = "word_of_nat m :: u64"
    have m: "unat ?h = m" using step.prems unat_lt_exp [of "stop"] by (intro unat_of_nat_small) simp
    then have range: "start \<le> ?h" "?h \<le> stop" using step by (simp_all add: word_le_nat_alt)
    have eq: "?h = start \<longleftrightarrow> m = unat start" using m by (auto simp: word_unat_eq_iff)
    have pred: "?h - 1 = word_of_nat (m - 1)" if "m \<noteq> unat start" using that step.hyps by (simp add: of_nat_diff)
    have "prev_block_hash (header ?h) = end_hash env a (?hs m)"
      using assms(1) range step.IH step.prems eq pred unfolding serves_chain_def by auto
    then show ?case using step.IH step.hyps step.prems by simp
  qed simp
  have le: "unat start \<le> Suc (unat stop)" using assms(2) by (simp add: word_le_nat_alt)
  have map: "map header (word_range_incl start stop) = ?hs (Suc (unat stop))" by (simp add: word_range_incl_def)
  show "extends env a (map header (word_range_incl start stop))"
    "end_hash env a (map header (word_range_incl start stop)) = btc_block_hash env (header stop)"
    unfolding map using step [OF le] assms(2) by (simp_all add: word_le_nat_alt del: upt_Suc)
qed

lemma concat_length: "[] \<notin> set xss \<Longrightarrow> length xss \<le> length (concat xss)"
proof (induction xss)
  case (Cons xs xss)
  then have "1 \<le> length xs" "length xss \<le> length (concat xss)" by (auto simp: Suc_le_eq)
  then have "1 + length xss \<le> length xs + length (concat xss)" by (rule add_le_mono)
  then show ?case by simp
qed simp

lemma relayed_blocks:
  fixes rt env signer and c :: "btc_ext_header list" and stop :: u64
  defines "E \<equiv> call_env rt env (signer_account signer) (5 * 10 ^ 23)" and "heights \<equiv> word_range_incl (block_height (last c) + 1) stop"
  assumes cf: "collision_free S g" and inv: "chain_inv S g c s"
    and node: "serves_chain env node get_aux header (block_height (last c) + 1) stop (block_hash (last c))"
    and run: "\<And>h. run h = Joined (get_block_header node get_aux h)"
    and range: "block_height (last c) < stop" "Suc (unat stop) < 2 ^ 64"
    and known: "\<And>h. block_height (last c) < h \<Longrightarrow> h \<le> stop \<Longrightarrow> known_header S env (header h)"
    and rules: "follows_rules s env (min (length c) (unat (gc_threshold s))) (map block_header c)
      (unat (block_height (last c)) + 1) (map header heights)"
    and work: "val (chain_work (last c)) + total_work (map header heights) < B256"
    and contract: "may_submit rt env (signer_account signer)" "affordable rt usage E batch_size" "0 < gc_threshold s"
      "contract_account signer = rt_contract rt"
    and signer: "\<And>n. \<exists>r. key_query signer n = Inr r" "response_kind response = AccessKey m" "0 < batch_size"
      "unat m + length heights < 2 ^ 64"
    and codec: "\<And>bs. \<exists>args. to_vec bs = Inr args \<and>
      ((\<forall>b \<in> set bs. wf_btc_header (fst b)) \<longrightarrow> decode args = Some (map fst bs))" "\<And>t. open_tx (sign signer t) = t"
  shows "\<exists>txs m' s' tip. sign_submit_blocks (Inr response) signer to_vec
      (fetch_blocks_to_submit run (block_height (last c) + 1) stop) batch_size = Inr txs \<and>
    for_each (execute rt open_tx decode usage env) txs (m, s) = Inr (m', s') \<and> get_last_block_header s' = Inr tip \<and>
    block_hash tip = btc_block_hash env (header stop) \<and> block_height tip = stop"
proof -
  let ?start = "block_height (last c) + 1" and ?n = "min (length c) (unat (gc_threshold s))"
  have start: "unat ?start = Suc (unat (block_height (last c)))" "?start \<le> stop"
    using range(1) unat_lt_exp [of "stop"] by (auto simp: word_less_nat_alt word_le_nat_alt unat_word_ariths)
  have in_range: "block_height (last c) < h \<and> h \<le> stop" if "h \<in> set heights" for h
    using that start by (auto simp: heights_def set_word_range_incl word_less_nat_alt word_le_nat_alt)
  have got: "\<exists>x. run h = Joined (Inr (h, header h, x))" if "h \<in> set heights" for h
    using that node unfolding serves_chain_def run get_block_header_def heights_def set_word_range_incl by fastforce
  have honest: "honest_tasks run" by (rule honest_get_block_header) (simp add: run)
  define blocks where "blocks = fetch_blocks_to_submit run ?start stop"
  have "takeWhile (\<lambda>h. fetched (run h) \<noteq> None) heights = heights"
    using got by (fastforce simp: takeWhile_eq_all_conv)
  then have blocks: "blocks = map (the \<circ> fetched \<circ> run) heights"
    unfolding blocks_def fetch_prefix [OF honest] heights_def by (simp only:)
  then have headers: "map (fst \<circ> snd) blocks = map header heights" using got by fastforce
  have vec: "\<exists>args. to_vec bs = Inr args" for bs using codec(1) by blast
  obtain txs where txs: "sign_submit_blocks (Inr response) signer to_vec blocks batch_size = Inr txs"
    using sign_submit_blocks_total [where to_vec = to_vec, OF vec signer(1-3)] by blast
  obtain parts where parts: "concat parts = blocks" "length txs = length parts"
    "\<And>k. k < length parts \<Longrightarrow> parts ! k \<noteq> [] \<and> length (parts ! k) \<le> batch_size"
    "\<And>k. k < length parts \<Longrightarrow> submits signer to_vec (m + 1 + word_of_nat k) (parts ! k) (signed_tx (txs ! k))"
    using sign_submit_blocks_Inr [OF txs signer(2)] by blast
  have size: "\<forall>part \<in> set parts. length part \<le> batch_size" "[] \<notin> set parts"
    using parts(3) by (auto simp: in_set_conv_nth)
  have nonces: "unat m + length parts < 2 ^ 64"
    using concat_length [OF size(2)] signer(4) parts(1) blocks by simp
  have tip: "at_tip S g s ?n (map block_header c) (block_hash (last c)) (val (chain_work (last c))) (unat (block_height (last c))) s"
    using inv unfolding at_tip_def by (intro exI [of _ c]) (simp add: same_config_def)
  have dec: "decode args = Some (map fst bs)" 
    if "to_vec bs = Inr args" "\<forall>b \<in> set bs. wf_btc_header (fst b)" for bs args using codec(1) [of bs] that by auto
  have len: "length heights = unat stop - unat (block_height (last c))"
    using start by (auto simp: heights_def word_range_incl_def word_le_nat_alt)
  have room: "Suc (unat (block_height (last c)) + length (map header heights)) < 2 ^ 64"
    using range by (simp add: len word_less_nat_alt)
  have "\<exists>s'. for_each (execute rt open_tx decode usage env) txs (m, s) = Inr (m + word_of_nat (length parts), s') \<and>
      at_tip S g s ?n (map block_header c @ map header heights) (end_hash env (block_hash (last c)) (map header heights))
        (val (chain_work (last c)) + total_work (map header heights)) (unat (block_height (last c)) + length (map header heights)) s'"
  proof (rule execute_all [OF cf _ contract(3,1) contract(2) [unfolded E_def] contract(4) codec(2) dec tip parts(2) size(1) parts(4) nonces])
    show "map header heights = map (fst \<circ> snd) (concat parts)" using headers parts(1) by simp
    show "\<forall>h \<in> set (map header heights). known_header S env h" using known in_range by auto
    show "extends env (block_hash (last c)) (map header heights)"
      unfolding heights_def by (rule serves_extends(1) [OF node start(2)])
  qed (use rules work room in \<open>simp_all\<close>)
  then obtain s' c' where s': "for_each (execute rt open_tx decode usage env) txs (m, s) = Inr (m + word_of_nat (length parts), s')" and
    c': "chain_inv S g c' s'" "block_hash (last c') = btc_block_hash env (header stop)"
      "unat (block_height (last c')) = unat (block_height (last c)) + length heights"
    unfolding at_tip_def heights_def serves_extends(2) [OF node start(2)] by auto
  have "block_height (last c') = stop" using c'(3) range(1) by (simp add: len word_less_nat_alt word_unat_eq_iff)
  then show ?thesis using txs s' c'(2) tip_of_chain [OF c'(1)] by (auto simp: blocks_def)
qed

end
