(* ===== verification/Relayer_Scenario.thy ===== *)
theory Relayer_Scenario
  imports Rule_Scenario Relay_Progress
begin

text \<open>
  Concrete nodes and iterations of the relayer on the chain of \<open>Scenario\<close>.
\<close>

section \<open>A node with the chain\<close>

definition sc_number :: "h256 \<Rightarrow> nat" where
  "sc_number h = unat (from_le_bytes_w (take 4 (h256_bytes h)) :: u32)"

lemma sc_number_hash [simp]: "k < 2 ^ 32 \<Longrightarrow> sc_number (sc_hash k) = k"
proof -
  assume "k < 2 ^ 32"
  moreover have "take 4 (h256_bytes (sc_hash k)) = to_le_bytes_w (word_of_nat k :: u32)" by (simp add: sc_hash_def)
  ultimately show ?thesis unfolding sc_number_def by (simp add: from_to_le_bytes_w unat_of_nat)
qed

definition sc_get_aux :: "h256 \<Rightarrow> (btc_header \<times> unit) attempt" where
  "sc_get_aux h = Inr (block_header (sc_main (sc_number h)), ())"

text \<open>From height \<open>fork\<close> on the node has other blocks than the contract.\<close>

definition sc_node :: "u64 \<Rightarrow> u64 \<Rightarrow> node" where
  "sc_node tip fork = \<lparr>node_block_count = Inr tip,
     node_block_hash = (\<lambda>h. Inr (sc_hash (if h < fork then unat h else 5000))),
     node_header_hex = (\<lambda>h. Inl (Other []))\<rparr>"

lemma sc_node_header:
  "h < fork \<Longrightarrow> unat h < 2 ^ 32 \<Longrightarrow> get_block_header_by_height (sc_node tip fork) sc_get_aux h = Inr (block_header (sc_main (unat h)))"
  "\<not> h < fork \<Longrightarrow> get_block_header_by_height (sc_node tip fork) sc_get_aux h = Inr (block_header (sc_main 5000))"
  by (simp_all add: get_block_header_by_height_def sc_node_def sc_get_aux_def)

lemma sc_string_inj: "h256_to_string sc_host (sc_hash a) = h256_to_string sc_host (sc_hash b) \<Longrightarrow> sc_hash a = sc_hash b"
proof -
  assume eq: "h256_to_string sc_host (sc_hash a) = h256_to_string sc_host (sc_hash b)"
  have "inj (\<lambda>b :: u8. char_of (unat b))"
  proof (rule injI)
    fix x y :: u8
    assume "(char_of (unat x) :: char) = char_of (unat y)"
    then have "(of_char (char_of (unat x) :: char) :: nat) = of_char (char_of (unat y) :: char)" by simp
    moreover have "unat z < 256" for z :: u8 using unsigned_less [of z] by simp
    ultimately show "x = y" by (simp add: word_unat_eq_iff)
  qed
  then have "rev (h256_bytes (sc_hash a)) = rev (h256_bytes (sc_hash b))"
    using eq by (simp add: h256_to_string_def sc_host_def inj_map_eq_map)
  then show ?thesis by (simp add: h256.expand)
qed

lemma sc_header_run: "header_run (btc_block_hash sc_host) (map (\<lambda>k. block_header (sc_main k)) [0 ..< 12])"
  unfolding sc_headers_12 header_run_def by (simp add: sc_main_hash sc_main_fields)

section \<open>Iterations\<close>

definition sc_signer :: "transaction near_signer" where
  "sc_signer = \<lparr>signer_account = ''relayer'', signer_key = ''key'', contract_account = ''contract'',
     key_query = (\<lambda>n. Inr \<lparr>response_kind = AccessKey 7, response_block_hash = []\<rparr>), sign = (\<lambda>t. t)\<rparr>"

definition sc_config :: config where
  "sc_config = \<lparr>max_fork_len = default_max_fork_len, sleep_time_on_fail_sec = default_sleep_time_on_fail_sec,
     sleep_time_on_reach_last_block_sec = default_sleep_time_on_reach_last_block_sec,
     sleep_time_after_sync_iteration_sec = default_sleep_time_after_sync_iteration_sec,
     fetch_batch_size = default_fetch_batch_size, submit_batch_size = default_submit_batch_size,
     config_min_batch_size = default_min_batch_size,
     bitcoin_conf = \<lparr>bitcoin_endpoint = ''node'', node_user = None, node_password = None, node_headers = None\<rparr>,
     near_conf = \<lparr>near_endpoint = ''near'', btc_light_client_account_id = ''contract'', account_id = ''relayer'',
       private_key = ''key'', near_credentials_path = None, transaction_timeout_sec = default_transaction_timeout_sec\<rparr>,
     init_conf = None\<rparr>"

definition sc_iteration :: "(custom_error + u64) attempt \<Rightarrow> (btc_header, unit, unit btc_header_ext, transaction) iteration" where
  "sc_iteration outcome = \<lparr>it_node = sc_node 9 100,
     it_tasks = (\<lambda>h. Joined (get_block_header (sc_node 9 100) sc_get_aux h)),
     it_near = contract_near sc_host (sc_client 4),
     it_key = Inr \<lparr>response_kind = AccessKey 7, response_block_hash = []\<rparr>,
     it_signer = sc_signer, it_to_vec = (\<lambda>bs. Inr []), it_outcome = (\<lambda>tx. (outcome, Inr 3))\<rparr>"

lemma sc_honest: "honest_tasks (it_tasks (sc_iteration outcome))"
  by (rule honest_get_block_header) (simp add: sc_iteration_def)

lemma sc_task:
  "unat h < 100 \<Longrightarrow> it_tasks (sc_iteration outcome) h = Joined (Inr (h, block_header (sc_main (unat h)), ()))"
  by (simp add: sc_iteration_def get_block_header_def sc_node_def sc_get_aux_def word_less_nat_alt)

lemma sc_fetch:
  "fetch_blocks_to_submit (it_tasks (sc_iteration outcome)) 5 9 =
    map (\<lambda>h. (h, block_header (sc_main (unat h)), ())) [5, 6, 7, 8, 9]"
proof -
  have "word_range_incl 5 9 = [5, 6, 7, 8, 9 :: u64]" by (simp add: word_range_incl_def upt_rec)
  then show ?thesis unfolding fetch_prefix [OF sc_honest] by (simp add: sc_task)
qed

lemma sc_not_stored: "is_block_hash_exists (it_near (sc_iteration outcome)) (h256_to_string sc_host (sc_hash 9)) = Inr False"
proof -
  have "unat b < 256" for b :: u8 using unsigned_less [of b] by simp
  then have "unat b mod 256 = unat b" for b :: u8 by simp
  then have str: "h256_from_str sc_host (h256_to_string sc_host (sc_hash 9)) = Some (sc_hash 9)"
    by (simp add: h256_from_str_def h256_to_string_def sc_host_def rev_map [symmetric] comp_def)
  have "block_hash e \<noteq> sc_hash 9" if "e \<in> set (sc_chain 4)" for e
  proof -
    from that obtain k where "k < 5" "e = sc_main k" by (auto simp: sc_chain_def)
    then show ?thesis using sc_hash_inj [of k 9] by (auto simp: sc_main_fields)
  qed
  then have "mainchain_header_to_height (sc_client 4) (sc_hash 9) = None"
    using chain_invD(4) [OF sc_inv, of 4] by (cases "mainchain_header_to_height (sc_client 4) (sc_hash 9)") (auto simp: indexed_def)
  then show ?thesis
    by (simp add: is_block_hash_exists_def sc_iteration_def contract_near_def str get_height_by_block_hash_def)
qed

definition sc_start :: relay_state where
  "sc_start = \<lparr>first_block_height_to_submit = 5, relay_sizer = sizer_new sc_config\<rparr>"

lemma sc_sizer: "sizer_new sc_config = \<lparr>max_batch_size = 15, max_fetch_size = 150, current_batch_size = 15, min_batch_size = 1, num_parallel_txs = 10\<rparr>"
  by (simp add: sizer_new_def sc_config_def default_fetch_batch_size_def default_submit_batch_size_def default_min_batch_size_def)

text \<open>The five blocks go into one transaction.\<close>

lemma interleaving_single: "interleaving [xs] xs"
  by (induction xs) (auto intro: interleaving.finished interleaving.step [of 0])

lemma sc_signed:
  "\<exists>t. sign_submit_blocks (it_key (sc_iteration outcome)) (it_signer (sc_iteration outcome)) (it_to_vec (sc_iteration outcome))
    (map (\<lambda>h. (h, block_header (sc_main (unat h)), ())) [5, 6, 7, 8, 9]) 15 =
    Inr [\<lparr>first_block_height = 5, last_block_height = 9, signed_tx = t\<rparr>]"
  by (simp add: sc_iteration_def sign_submit_blocks_def chunks.simps [of 15] sign_tx_def sc_signer_def)

lemma sc_iterate:
  "\<exists>(tx :: transaction signed_submit) st'. sync_iteration sc_host (btc_block_hash sc_host) (sc_iteration outcome) sc_start st' \<and>
    st' = fold apply_action (task_actions tx outcome (Inr 3)) sc_start \<and> first_block_height tx = 5 \<and> last_block_height tx = 9"
proof -
  obtain t where t: "sign_submit_blocks (it_key (sc_iteration outcome)) (it_signer (sc_iteration outcome)) (it_to_vec (sc_iteration outcome))
    (map (\<lambda>h. (h, block_header (sc_main (unat h)), ())) [5, 6, 7, 8, 9]) 15 =
    Inr [\<lparr>first_block_height = 5, last_block_height = 9, signed_tx = t\<rparr>]" using sc_signed by blast
  let ?tx = "\<lparr>first_block_height = 5, last_block_height = 9, signed_tx = t\<rparr>"
  have count: "node_block_count (it_node (sc_iteration outcome)) = Inr 9" by (simp add: sc_iteration_def sc_node_def)
  have fend: "min 9 (saturating_add_u64 5 (current_fetch_size (sizer_new sc_config))) = 9"
    by (simp add: sc_sizer current_fetch_size_def saturating_add_u64_def)
  have skip: "check_submission_skipped (it_near (sc_iteration outcome)) (h256_to_string sc_host (sc_hash 9)) n sc_start = (Inr False, sc_start)" for n
    by (simp add: check_submission_skipped_def sc_not_stored)
  have "prepare_and_submit_batches (Inr [?tx]) (it_outcome (sc_iteration outcome)) sc_start
      (fold apply_action (task_actions ?tx outcome (Inr 3)) sc_start)"
    using interleaving_single by (auto simp: prepare_and_submit_batches_def sc_iteration_def)
  then have "sync_iteration sc_host (btc_block_hash sc_host) (sc_iteration outcome) sc_start
      (fold apply_action (task_actions ?tx outcome (Inr 3)) sc_start)"
    unfolding sync_iteration_def count sum.case Let_def
    using fend sc_fetch [of outcome] skip t by (simp add: sc_start_def sc_sizer sc_main_hash)
  then show ?thesis by (intro exI [of _ ?tx] exI [of _ "fold apply_action (task_actions ?tx outcome (Inr 3)) sc_start"]) simp
qed

section \<open>Outcomes\<close>

lemma sc_pool: "headers_pool (sc_client k) h = Some e \<Longrightarrow> \<exists>i \<le> k. h = sc_hash i"
  by (induction k) (auto simp: store_block_header_def sc_main_fields le_Suc_eq split: if_splits)

definition sc_report :: "panic \<Rightarrow> string" where
  "sc_report p = (case p of Panic m \<Rightarrow> ''Smart contract panicked: '' @ m
     | GasExceeded \<Rightarrow> ''Exceeded the maximum amount of gas allowed to burn per contract.'' | _ \<Rightarrow> [])"

lemma sc_faithful: "faithful_report sc_report"
proof -
  have "\<exists>pre post. ''Smart contract panicked: '' @ m = pre @ m @ post" for m :: string
    by (metis append_Nil2)
  then show ?thesis unfolding faithful_report_def by (simp add: sc_report_def)
qed

section \<open>A run from the node to the contract\<close>

text \<open>A client of the main network with blocks 0 to 11 that checks proof of work, and the price of storage on NEAR.\<close>

definition sc_relayed :: btc_client where
  "sc_relayed = (sc_client 11)\<lparr>gc_threshold := 100\<rparr>"

definition sc_env :: host where
  "sc_env = sc_host\<lparr>is_trusted_relayer := False, storage_byte_cost := 10 ^ 19\<rparr>"

lemma sc_env_simps [simp]:
  "btc_block_hash sc_env = btc_block_hash sc_host" "btc_block_hash_pow sc_env = btc_block_hash_pow sc_host"
  "block_timestamp_ms sc_env = 1000000" "is_paused sc_env f = False" "storage_byte_cost sc_env = 10 ^ 19"
  by (simp_all add: sc_env_def fun_eq_iff btc_block_hash_def btc_block_hash_pow_def double_sha256_def)

lemma sc_relayed_inv: "chain_inv sc_headers (sc_main 0) (sc_chain 11) sc_relayed"
  using sc_inv [of 11] by (simp add: sc_relayed_def chain_inv_def pool_ok_def indexed_def)

definition sc_relay_header :: "u64 \<Rightarrow> btc_header" where "sc_relay_header h = block_header (sc_main (unat h))"

lemma sc_main_wf: "wf_btc_header (block_header (sc_main k))"
  by (simp add: wf_btc_header_def wf_h256_def sc_main_header sc_origin_def sc_root_def)

lemma sc_range_cases: "12 \<le> h \<and> h \<le> 14 \<Longrightarrow> h = 12 \<or> h = 13 \<or> h = 14" for h :: u64
  by (auto simp: word_le_nat_alt word_unat_eq_iff)

lemma sc_serves: "serves_chain sc_env (sc_node 20 100) sc_get_aux sc_relay_header 12 14 (sc_hash 11)"
  unfolding serves_chain_def
proof (intro allI impI)
  fix h :: u64 assume "12 \<le> h \<and> h \<le> 14"
  then consider "h = 12" | "h = 13" | "h = 14" using sc_range_cases by blast
  then show "(\<exists>x. node_block_hash (sc_node 20 100) h = Inr (btc_block_hash sc_env (sc_relay_header h)) \<and>
      sc_get_aux (btc_block_hash sc_env (sc_relay_header h)) = Inr (sc_relay_header h, x)) \<and>
    prev_block_hash (sc_relay_header h) = (if h = 12 then sc_hash 11 else btc_block_hash sc_env (sc_relay_header (h - 1)))"
    by cases (simp_all add: sc_relay_header_def sc_node_def sc_get_aux_def sc_main_hash sc_main_fields)
qed

text \<open>The new headers meet the rules of the main network.\<close>

lemma sc_times: "k < j \<Longrightarrow> map (\<lambda>i. block_header (sc_main i)) [0 ..< j] ! k = block_header (sc_main k)"
  by simp

lemma sc_medians:
  "median_of (map (\<lambda>k. word_of_nat (11 - k) :: u32) [0 ..< 11]) = 6"
  "median_of (map (\<lambda>k. word_of_nat (12 - k) :: u32) [0 ..< 11]) = 7"
  "median_of (map (\<lambda>k. word_of_nat (13 - k) :: u32) [0 ..< 11]) = 8"
  by (simp_all add: median_of_def upt_rec word_le_nat_alt)

lemma sc_valid_next:
  assumes "12 \<le> j" "j < 2016" "median_of (map (\<lambda>k. word_of_nat (j - 1 - k) :: u32) [0 ..< 11]) < word_of_nat j"
  shows "valid_next sc_env 12 (map (\<lambda>k. block_header (sc_main k)) [0 ..< j]) j (block_header (sc_main j))"
proof -
  let ?hist = "map (\<lambda>k. block_header (sc_main k)) [0 ..< j]"
  have "map (\<lambda>k. time (?hist ! (length ?hist - 1 - k))) [0 ..< 11] = map (\<lambda>k. word_of_nat (j - 1 - k)) [0 ..< 11]"
    by (rule map_cong [OF refl]) (use assms(1) in \<open>simp add: sc_time\<close>)
  then have "median_of (map (\<lambda>k. time (?hist ! (length ?hist - 1 - k))) [0 ..< 11]) < time (block_header (sc_main j))"
    using assms(3) by (simp only: sc_time)
  moreover have "next_bits 12 ?hist j (bits (block_header (sc_main j)))"
    using assms(1,2) by (simp add: next_bits_def sc_bits last_map)
  moreover have "unat (time (block_header (sc_main j))) = j" using assms(2) by (simp add: sc_time unat_of_nat)
  moreover have "val (u256_from_le_bytes (h256_bytes (btc_block_hash_pow sc_env (block_header (sc_main j))))) \<le>
      target_val (bits (block_header (sc_main j)))"
    using assms(2) by (simp add: sc_main_fields sc_pow sc_bits sc_targets)
  ultimately show ?thesis using assms(2) by (simp add: valid_next_def sc_main_fields)
qed

lemma sc_rules:
  "follows_rules sc_relayed sc_env 12 (map block_header (sc_chain 11)) 12 (map sc_relay_header [12, 13, 14])"
proof -
  let ?hist = "\<lambda>j. map (\<lambda>k. block_header (sc_main k)) [0 ..< j]"
  have hist: "map block_header (sc_chain 11) = ?hist 12" by (simp add: sc_chain_def comp_def)
  have grow: "?hist j @ [block_header (sc_main j)] = ?hist (Suc j)" for j by simp
  have new: "map sc_relay_header [12, 13, 14] = map (\<lambda>k. block_header (sc_main k)) [12, 13, 14]"
    by (simp add: sc_relay_header_def)
  have "valid_run sc_env 12 (?hist 12) 12 (map (\<lambda>k. block_header (sc_main k)) [12, 13, 14])"
    using sc_valid_next [of 12] sc_valid_next [of 13] sc_valid_next [of 14] sc_medians grow [of 12] grow [of 13]
    by (simp del: upt_Suc)
  moreover have "network sc_relayed = Mainnet" by (simp add: sc_relayed_def)
  ultimately show ?thesis unfolding follows_rules_def hist new by simp
qed

text \<open>Each stored header takes 500 bytes, each submitted one 20 Tgas.\<close>

definition sc_usage :: "btc_client \<Rightarrow> u64" where
  "sc_usage s = word_of_nat (500 * length (filter (\<lambda>k. headers_pool s (sc_hash k) \<noteq> None) [0 ..< 15]))"

definition sc_runtime :: runtime where
  "sc_runtime = \<lparr>rt_contract = ''contract'', rt_trusted = (\<lambda>who. who = ''relayer''), rt_roles = (\<lambda>who r. False),
     rt_gas_cost = (\<lambda>hs s. word_of_nat (20000000000000 * length hs)), rt_gas_limit = 300000000000000\<rparr>"

lemma sc_small: "n \<le> 60000000000000 \<Longrightarrow> unat (word_of_nat n :: u64) = n"
  by (rule unat_of_nat_small) simp

lemma sc_usage_bound: "unat (sc_usage s) \<le> 7500"
proof -
  let ?n = "500 * length (filter (\<lambda>k. headers_pool s (sc_hash k) \<noteq> None) [0 ..< 15])"
  have "?n \<le> 7500"
    using length_filter_le [of "\<lambda>k. headers_pool s (sc_hash k) \<noteq> None" "[0 ..< 15]"] by simp
  then show ?thesis using sc_small [of ?n] unfolding sc_usage_def by linarith
qed

lemma sc_deposit: "saturating_mul_w (10 ^ 19) (ucast (saturating_sub_w (sc_usage s2) (sc_usage s1))) \<le> (5 * 10 ^ 23 :: 128 word)"
proof -
  define d where "d = saturating_sub_w (sc_usage s2) (sc_usage s1)"
  have "unat d \<le> unat (sc_usage s2)" unfolding d_def saturating_sub_w_def
    by (auto simp: not_less word_le_nat_alt unat_sub)
  then have d: "unat d \<le> 7500" using sc_usage_bound [of s2] by simp
  have "unat (ucast d :: 128 word) = unat d" by (rule unat_ucast_u64)
  then show ?thesis using d unfolding d_def [symmetric]
    by (simp add: saturating_mul_w_def word_le_nat_alt unat_word_ariths)
qed

lemma sc_may_submit: "may_submit sc_runtime sc_env (signer_account sc_signer)"
  by (simp add: may_submit_def sc_runtime_def sc_signer_def)

lemma sc_affordable: "affordable sc_runtime sc_usage (call_env sc_runtime sc_env who d) 2"
proof -
  have "(word_of_nat (20000000000000 * n) :: u64) \<le> 300000000000000" if "n \<le> 2" for n
  proof -
    have "unat (word_of_nat (20000000000000 * n) :: u64) = 20000000000000 * n" by (rule sc_small) (use that in simp)
    then show ?thesis using that unfolding word_le_nat_alt by simp
  qed
  then show ?thesis unfolding affordable_def using sc_deposit by (simp add: sc_runtime_def)
qed

text \<open>An encoding of the arguments: the headers one after the other.\<close>

definition sc_encode :: "(btc_header \<times> unit) list \<Rightarrow> u8 list attempt" where
  "sc_encode bs = Inr (concat (map (btc_get_block_header_vec \<circ> fst) bs))"

definition sc_decode :: "u8 list \<Rightarrow> btc_header list option" where
  "sc_decode args = Some (map (projr \<circ> btc_from_block_header_vec) (chunks 80 args))"

lemma chunks_append: "length x = n \<Longrightarrow> 0 < n \<Longrightarrow> chunks n (x @ xs) = x # chunks n xs"
  by (subst chunks.simps) auto

lemma sc_codec:
  "\<exists>args. sc_encode bs = Inr args \<and> ((\<forall>b \<in> set bs. wf_btc_header (fst b)) \<longrightarrow> sc_decode args = Some (map fst bs))"
proof -
  have "map (projr \<circ> btc_from_block_header_vec) (chunks 80 (concat (map (btc_get_block_header_vec \<circ> fst) bs))) = map fst bs"
    if "\<forall>b \<in> set bs. wf_btc_header (fst b)" using that
  proof (induction bs)
    case Nil
    then show ?case by (simp add: chunks.simps)
  next
    case (Cons b bs)
    then have "wf_btc_header (fst b)" by simp
    from btc_dec_enc [OF this] have dec: "btc_from_block_header_vec (btc_get_block_header_vec (fst b)) = Inr (fst b)" .
    then have "length (btc_get_block_header_vec (fst b)) = 80"
      using btc_codec.dec_cases [of "btc_get_block_header_vec (fst b)"] by (auto simp: btc_SIZE_def)
    then show ?case using Cons dec by (simp add: chunks_append)
  qed
  then show ?thesis by (simp add: sc_encode_def sc_decode_def)
qed

end
