(* ===== verification/Encodings.thy ===== *)
theory Encodings
  imports Headers
begin

text \<open>
  The text encodings of JSON: hashes (\<^verbatim>\<open>btc-types/src/hash.rs\<close>) and the module \<^verbatim>\<open>serd_u32_hex\<close> of
  \<^verbatim>\<open>btc-types/src/utils.rs\<close>. What serde does with the text is not modelled.
\<close>

section \<open>Hexadecimal text\<close>

definition hex_char :: "nat \<Rightarrow> char" where "hex_char n = ''0123456789abcdef'' ! n"

definition hex_text :: "u8 list \<Rightarrow> string" where
  "hex_text bs = concat (map (\<lambda>b. [hex_char (unat b div 16), hex_char (unat b mod 16)]) bs)"

text \<open>What the hex crate documents: lower case, two digits for a byte, and decoding undoes encoding.\<close>

definition standard_hex :: "host \<Rightarrow> bool" where
  "standard_hex env \<longleftrightarrow> (\<forall>bs. hex_encode env bs = hex_text bs) \<and> (\<forall>bs. hex_decode env (hex_text bs) = Some bs)"

section \<open>Hashes\<close>

definition h256_serialize :: "host \<Rightarrow> h256 \<Rightarrow> string" where
  "h256_serialize env h = hex_encode env (rev (h256_bytes h))"

definition h256_deserialize :: "host \<Rightarrow> string \<Rightarrow> h256 option" where
  "h256_deserialize env s = (case hex_decode env s of None \<Rightarrow> None
     | Some bytes \<Rightarrow> if length bytes = 32 then Some (H256 (rev bytes)) else None)"

lemma h256_json_roundtrip:
  "standard_hex env \<Longrightarrow> wf_h256 h \<Longrightarrow> h256_deserialize env (h256_serialize env h) = Some h"
  by (cases h) (simp add: standard_hex_def wf_h256_def h256_serialize_def h256_deserialize_def)

text \<open>The text of JSON is the text of \<open>Display\<close>, which the relayer compares.\<close>

lemma h256_to_string_inj:
  "standard_hex env \<Longrightarrow> wf_h256 a \<Longrightarrow> wf_h256 b \<Longrightarrow> h256_to_string env a = h256_to_string env b \<longleftrightarrow> a = b"
  using h256_json_roundtrip by (metis h256_serialize_def h256_to_string_def option.inject)

section \<open>Numbers as hexadecimal text\<close>

definition u32_hex_serialize :: "host \<Rightarrow> u32 \<Rightarrow> string" where
  "u32_hex_serialize env num = hex_encode env (to_le_bytes_w num)"

definition hex_digit :: "char \<Rightarrow> nat option" where
  "hex_digit c = (let n = of_char c :: nat in
     if 48 \<le> n \<and> n \<le> 57 then Some (n - 48)
     else if 97 \<le> n \<and> n \<le> 102 then Some (n - 87)
     else if 65 \<le> n \<and> n \<le> 70 then Some (n - 55)
     else None)"

fun radix_16 :: "nat \<Rightarrow> string \<Rightarrow> nat option" where
  "radix_16 acc [] = Some acc"
| "radix_16 acc (c # cs) = (case hex_digit c of None \<Rightarrow> None
     | Some d \<Rightarrow> if acc * 16 + d < 2 ^ 32 then radix_16 (acc * 16 + d) cs else None)"

text \<open>\<open>u32::from_str_radix\<close> takes an optional plus sign and at least one digit, and fails on overflow.\<close>

definition u32_from_str_radix_16 :: "string \<Rightarrow> u32 option" where
  "u32_from_str_radix_16 s =
     (let digits = (case s of c # cs \<Rightarrow> if c = CHR ''+'' \<and> cs \<noteq> [] then cs else s | [] \<Rightarrow> [])
      in if digits = [] then None else map_option word_of_nat (radix_16 0 digits))"

definition u32_hex_deserialize :: "string \<Rightarrow> u32 option" where
  "u32_hex_deserialize hex_str = u32_from_str_radix_16 hex_str"

lemma hex_digit_char: "n < 16 \<Longrightarrow> hex_digit (hex_char n) = Some n"
proof -
  assume "n < 16"
  then have "n \<in> set [0 ..< 16]" by simp
  also have "[0 ..< 16] = [0, 1, 2, 3, 4, 5, 6, 7, 8, 9, 10, 11, 12, 13, 14, 15]" by (simp add: upt_rec)
  finally show ?thesis by (auto simp: hex_char_def hex_digit_def)
qed

lemma radix_16_text:
  "(acc + 1) * 256 ^ length bs \<le> 2 ^ 32 \<Longrightarrow> radix_16 acc (hex_text bs) = Some (acc * 256 ^ length bs + le_val (rev bs))"
proof (induction bs arbitrary: acc)
  case Nil
  then show ?case by (simp add: hex_text_def)
next
  case (Cons b bs)
  have b: "unat b < 256" using unat_lt_exp [of b] by simp
  let ?acc = "acc * 256 + unat b"
  have "(?acc + 1) * 256 ^ length bs \<le> ((acc + 1) * 256) * 256 ^ length bs" using b by (intro mult_right_mono) simp_all
  also have "\<dots> = (acc + 1) * 256 ^ length (b # bs)" by (simp add: algebra_simps)
  also have "\<dots> \<le> 2 ^ 32" by (rule Cons.prems)
  finally have room: "(?acc + 1) * 256 ^ length bs \<le> 2 ^ 32" .
  then have "?acc + 1 \<le> 2 ^ 32" using mult_le_mono [of "?acc + 1" "?acc + 1" 1 "256 ^ length bs"] by simp
  then have "?acc < 2 ^ 32" by simp
  moreover have "(acc * 16 + unat b div 16) * 16 + unat b mod 16 = ?acc" by presburger
  moreover from this have "acc * 16 + unat b div 16 \<le> ?acc" by linarith
  ultimately have "acc * 16 + unat b div 16 < 2 ^ 32" "(acc * 16 + unat b div 16) * 16 + unat b mod 16 = ?acc" "?acc < 2 ^ 32"
    by (auto intro: le_less_trans)
  then have "radix_16 acc (hex_text (b # bs)) = radix_16 ?acc (hex_text bs)"
    using b by (simp add: hex_text_def hex_digit_char add.commute [of "unat b"] mult.commute [of 256])
  moreover have "le_val (xs @ [b]) = le_val xs + 256 ^ length xs * unat b" for xs
    by (induction xs) (simp_all add: algebra_simps)
  ultimately show ?case using Cons.IH [OF room] by (simp add: algebra_simps)
qed

lemma hex_char_no_plus: "n < 16 \<Longrightarrow> hex_char n \<noteq> CHR ''+''"
  using hex_digit_char [of n] by (auto simp: hex_digit_def)

text \<open>Reading back what was written reverses the bytes.\<close>

lemma u32_hex_swaps:
  assumes "standard_hex env"
  shows "u32_hex_deserialize (u32_hex_serialize env w) = Some (from_be_bytes_w (to_le_bytes_w w))"
proof -
  obtain b bs where w: "to_le_bytes_w w = b # bs" using length_to_le_bytes_w [of w] by (cases "to_le_bytes_w w") auto
  have "unat b < 256" using unat_lt_exp [of b] by simp
  then have "hex_char (unat b div 16) \<noteq> CHR ''+''" by (intro hex_char_no_plus) simp
  then have "u32_hex_deserialize (u32_hex_serialize env w) = map_option word_of_nat (radix_16 0 (hex_text (to_le_bytes_w w)))"
    using assms by (simp add: u32_hex_deserialize_def u32_from_str_radix_16_def u32_hex_serialize_def standard_hex_def w)
      (simp add: hex_text_def)
  then show ?thesis using radix_16_text [of 0 "to_le_bytes_w w"] by (simp add: from_be_bytes_w_def from_le_bytes_w_def)
qed

section \<open>A decoder\<close>

text \<open>That \<open>standard_hex\<close> can hold: a decoder of pairs of digits.\<close>

fun hex_parse :: "string \<Rightarrow> u8 list option" where
  "hex_parse [] = Some []"
| "hex_parse [c] = None"
| "hex_parse (a # b # cs) = (case (hex_digit a, hex_digit b, hex_parse cs) of
     (Some x, Some y, Some bs) \<Rightarrow> Some (word_of_nat (x * 16 + y) # bs) | _ \<Rightarrow> None)"

lemma hex_parse_text: "hex_parse (hex_text bs) = Some bs"
proof (induction bs)
  case (Cons b bs)
  have "unat b < 256" using unat_lt_exp [of b] by simp
  then have "hex_digit (hex_char (unat b div 16)) = Some (unat b div 16)" by (intro hex_digit_char) simp
  moreover have "hex_digit (hex_char (unat b mod 16)) = Some (unat b mod 16)" by (intro hex_digit_char) simp
  moreover have "hex_parse (hex_text (b # bs)) = hex_parse (hex_char (unat b div 16) # hex_char (unat b mod 16) # hex_text bs)"
    by (simp add: hex_text_def)
  ultimately show ?case using Cons by (simp del: of_nat_add of_nat_mult)
qed (simp add: hex_text_def)

lemma standard_hex_possible: "standard_hex (env\<lparr>hex_encode := hex_text, hex_decode := hex_parse\<rparr>)"
  by (simp add: standard_hex_def hex_parse_text)

end
