(* ===== verification/Spec2Isabelle.thy ===== *)
theory Spec2Isabelle
  imports Relayer_Scenario Encodings
begin

text \<open>
  A model of the light client for Bitcoin-like chains on NEAR, and its properties.

  The program. \<^verbatim>\<open>contract/\<close> is a smart contract that stores the headers of another chain (Bitcoin,
  Litecoin, Dogecoin or Zcash, chosen by a cargo feature), follows the chain with the most work and
  answers whether a transaction is in a confirmed block. \<^verbatim>\<open>btc-types/\<close> holds the data types and the
  arithmetic, \<^verbatim>\<open>merkle-tools/\<close> the Merkle trees, \<^verbatim>\<open>relayer/\<close> the program that feeds the contract.

  The theories, from the bottom:
  \<^item> \<open>Prelude\<close>: machine words, results and panics, loops whose body may panic, byte orders, ranges.
    A result is \<open>panic + 'a\<close>; a panic of a contract call discards every change, so a call either gives
    a new state or an error. The contract is built with overflow checks, hence \<open>checked_add\<close> and its
    relatives wherever the code writes a plain operator.
  \<^item> \<open>U256\<close> (\<^verbatim>\<open>btc-types/src/u256.rs\<close>) and \<open>Compact\<close> (\<^verbatim>\<open>btc-types/src/utils.rs\<close>): 256-bit arithmetic on two
    128-bit halves, compact targets and work; \<open>val\<close> reads a number, and each operation is related
    to the operation on naturals.
  \<^item> \<open>Headers\<close> (\<^verbatim>\<open>btc_header.rs\<close>, \<^verbatim>\<open>zcash_header.rs\<close>, \<^verbatim>\<open>hash.rs\<close>, \<^verbatim>\<open>aux.rs\<close>, \<^verbatim>\<open>contract_args.rs\<close>): the data, the
    encodings of headers, and the record \<open>host\<close> of everything outside the code: hash functions, the
    Equihash verifier, the decoder of transactions, the hex crate, the clock, the deposit, roles and paused
    features, and the gas. The locale \<open>header_codec\<close> states what an encoding promises.
  \<^item> \<open>Encodings\<close> (\<^verbatim>\<open>hash.rs\<close>, \<^verbatim>\<open>utils.rs\<close>): the text of hashes and numbers in JSON.
  \<^item> \<open>Merkle\<close> (\<^verbatim>\<open>merkle-tools/src/lib.rs\<close>): completeness and soundness of proofs. Soundness assumes that the
    pairs hashed in the tree and along the path do not collide, and nothing of other inputs.
  \<^item> \<open>Network\<close> (\<^verbatim>\<open>network.rs\<close>): constants and configurations.
  \<^item> \<open>Light_Client\<close> (\<^verbatim>\<open>contract/src/lib.rs\<close>, \<^verbatim>\<open>contract/src/utils.rs\<close>): the state as the record \<open>client\<close>, one
    definition per method, and the calls from outside (\<open>init_call\<close> and so on), which refuse a deposit as near-sdk
    does for methods that are not payable. What the cargo feature selects is the record \<open>chain\<close>.
  \<^item> \<open>Chain_Invariant\<close>: the invariant \<open>chain_inv S g c s\<close> (the maps of \<open>s\<close> describe the chain \<open>c\<close> from the
    genesis block \<open>g\<close>), the specification \<open>best_chain\<close> and that submission implements it. \<open>S\<close> collects
    the submitted headers with their hashes; \<open>collision_free\<close> states that a hash stands for one of them.
  \<^item> \<open>Contract\<close>: garbage collection, initialisation, and the locale \<open>submission\<close>, the interface between the
    contract and a chain's \<open>submit_block_header\<close>, with the reachable states of the contract.
  \<^item> \<open>Inclusion\<close>: the views and the inclusion checks over the invariant.
  \<^item> \<open>Retarget\<close>: what the difficulty rules share, with the locale \<open>block_lookup\<close> for the trait
    \<^verbatim>\<open>BlocksGetter\<close>, interpreted on the contract's state.
  \<^item> \<open>Bitcoin\<close>, \<open>Litecoin\<close>, \<open>Dogecoin\<close>, \<open>Zcash\<close> (\<^verbatim>\<open>contract/src/bitcoin.rs\<close> and so on): the rules of the chains,
    each with its interpretation of \<open>submission\<close>.
  \<^item> \<open>Relayer\<close> (\<^verbatim>\<open>relayer/src\<close>): configuration, HTTP transport, size of batches, reading headers from the node, the
    search for the last common block, fetching, view calls, signing and submitting, the start and the loop of \<open>sync\<close>, the arguments of
    \<open>init\<close>. What the node, the NEAR RPC and the signer answer are parameters (the records \<open>node\<close>, \<open>near\<close>,
    \<open>near_signer\<close>, \<open>iteration\<close>); tasks that run concurrently are an \<open>interleaving\<close> of their actions on the
    shared state. The program is built in release mode, so its arithmetic wraps.
  \<^item> \<open>Relay_Correctness\<close>: its lemmas; the locale \<open>relayed_contract\<close> states what the relayer relies on of the
    contract's views, and is interpreted on the contract of \<open>Light_Client\<close>; \<open>near_of_contract_views\<close> shows that the view calls by name
    and JSON arguments meet it.
  \<^item> \<open>Relay_Progress\<close>: relayer and Bitcoin contract together, from the blocks of a node to the tip of the contract. The
    new headers have to follow the rules of the main network, stated on the list of headers (\<open>valid_run\<close>);
    \<open>execute\<close> models the part of the NEAR runtime that the transactions depend on: nonce, receiver, method, gas,
    caller and deposit. Its prices are parameters (\<open>runtime\<close>), and \<open>affordable\<close> says that what the relayer
    attaches covers a batch. The balance of the signer's account and the age of the block hash in a
    transaction are left out, and the clock stands still meanwhile.
  \<^item> \<open>Scenario\<close>, \<open>Rule_Scenario\<close>, \<open>Relayer_Scenario\<close>: concrete headers, states, proofs and runs on which the hypotheses of the
    properties hold.

  Gas. Two loops have no bound of their own: the walk along a fork in \<open>reorg_chain\<close> and the walk over
  minimum-difficulty blocks on test networks. They run on the gas of the call (\<open>loop_gas\<close>, one unit for
  an iteration), and running out of it is the error \<open>GasExceeded\<close>. The properties that claim success say
  how much is enough: one unit per block of the fork, and 2015 units.

  The properties below are grouped by what they are about: the chain that the contract follows,
  initialisation and garbage collection, transaction inclusion, Merkle trees, the consensus rules, the
  relayer, the other chains, the views, the arithmetic, the encodings.

  Not modelled: logging; JSON documents and Borsh encodings, which are derived by third-party crates (the
  two decoders that \<open>migrate\<close> uses are its parameters); the methods that the macros of near-plugins
  generate (roles, pausing, upgrades, staking of relayers), of which the contract uses the guards only;
  storage prices and the transfer of the refund beyond its amount; the calls of the RPC
  libraries, what the config crate and the command line parser read, sleeping; tests.
\<close>

section \<open>The chain the contract follows\<close>

text \<open>
  C1: in every state that the Bitcoin contract can reach, by initialisation and any sequence of
  submissions and garbage collections by any callers, the maps of the contract describe one chain of
  linked blocks: heights and hashes index exactly its blocks, its ends are the recorded initial and tip
  blocks, every stored block descends from the genesis block with its height and accumulated work, and
  no stored block has more work than the tip.
\<close>

theorem btc_reachable_invariant:
  "reachable bitcoin (\<lambda>h. h) S g s \<Longrightarrow> collision_free S g \<Longrightarrow> \<exists>c. chain_inv S g c s"
  by (rule btc.reachable_inv)

theorem btc_reachable_invariant_witness:
  "\<exists>s c. reachable bitcoin (\<lambda>h. h) sc_headers (sc_genesis 0) s \<and> chain_inv sc_headers (sc_genesis 0) c s"
  using sc_reachable_btc btc_reachable_invariant [OF _ sc_genesis_collision_free [of 0]] by blast

text \<open>
  C2: storing a block implements the specification \<open>best_chain\<close>: a child of the tip extends the main
  chain, a block without more work than the tip leaves it, and a heavier block on a fork replaces it from
  the fork point on. The invariant holds again and the settings are those before.
\<close>

theorem submission_refines_best_chain:
  assumes "collision_free S g" "chain_inv S g c s" "headers_pool s (block_hash p) = Some p" "child_block S p e"
    and "submit_block_header_inner env e p s = Inr s'"
  shows "\<exists>c'. best_chain c e c' \<and> chain_inv S g c' s' \<and> same_config s s'"
  using assms by (rule inner_refines)

theorem submission_refines_best_chain_witness:
  "\<exists>s' c'. submit_block_header_inner sc_host sc_fork2 sc_fork1 sc_forked = Inr s' \<and>
    best_chain (sc_chain 2) sc_fork2 c' \<and> chain_inv sc_headers (sc_main 0) c' s'"
  using sc_switch
    submission_refines_best_chain [OF sc_collision_free sc_forked_inv sc_fork_stored sc_fork_child(2)] by blast

text \<open>
  C3: storing a block whose branch is in the pool succeeds, given gas for one iteration per fork block;
  afterwards the tip is the new block exactly if it has more work than the old tip.
\<close>

theorem heavier_fork_is_adopted:
  assumes "collision_free S g" "chain_inv S g c s" "headers_pool s (block_hash p) = Some p" "child_block S p e"
    and "j \<in> set c" "linked (j # ws @ [e])" "\<forall>w \<in> set ws. headers_pool s (block_hash w) = Some w"
    and "set ws \<inter> set c = {}" "length ws < loop_gas env"
  shows "\<exists>s'. submit_block_header_inner env e p s = Inr s' \<and>
    get_last_block_header s' = Inr (if chain_work (last c) < chain_work e then e else last c)"
proof -
  obtain s' where s': "submit_block_header_inner env e p s = Inr s'" using inner_total [OF assms] by blast
  from inner_refines [OF assms(1-4) this] obtain c' where c': "best_chain c e c'" "chain_inv S g c' s'" by blast
  then have "last c' = (if chain_work (last c) < chain_work e then e else last c)"
    using extended_tip [OF assms(1-4)] by blast
  then show ?thesis using s' tip_of_chain [OF c'(2)] by simp
qed

theorem heavier_fork_is_adopted_witness:
  "\<exists>s'. submit_block_header_inner sc_host sc_fork2 sc_fork1 sc_forked = Inr s' \<and>
    get_last_block_header s' = Inr sc_fork2"
  using heavier_fork_is_adopted [OF sc_collision_free sc_forked_inv sc_fork_stored sc_fork_child(2), of "sc_main 0" "[sc_fork1]" sc_host]
    sc_fork_path sc_fork_heavier by simp

text \<open>
  C4: whatever is called later on the Bitcoin contract, the tip has at least the work of every block
  that was ever stored, also of those removed since.
\<close>

theorem tip_is_heaviest_ever:
  assumes "collision_free S g" "reachable bitcoin (\<lambda>h. h) S g s"
    and "(contract_step bitcoin (\<lambda>h. h) S)\<^sup>*\<^sup>* s s'" "headers_pool s h = Some e"
  shows "\<exists>tip. get_last_block_header s' = Inr tip \<and> chain_work e \<le> chain_work tip"
  using assms by (rule btc.steps_heaviest)

theorem tip_is_heaviest_ever_witness:
  "\<exists>s e tip. reachable bitcoin (\<lambda>h. h) sc_headers (sc_genesis 0) s \<and>
    headers_pool s (mainchain_tip_blockhash s) = Some e \<and> get_last_block_header s = Inr tip \<and> chain_work e \<le> chain_work tip"
proof -
  from sc_reachable_btc obtain s where s: "reachable bitcoin (\<lambda>h. h) sc_headers (sc_genesis 0) s" by blast
  then obtain c where c: "chain_inv sc_headers (sc_genesis 0) c s"
    using btc.reachable_inv [OF _ sc_genesis_collision_free] by blast
  show ?thesis
    using s chain_invD(9) [OF c] tip_is_heaviest_ever [OF sc_genesis_collision_free s rtranclp.rtrancl_refl] by blast
qed

section \<open>Initialisation and garbage collection\<close>

text \<open>
  C5: initialising the Bitcoin contract with linked headers succeeds exactly if the call is the contract's
  own, without a deposit and the first one, the first header has the announced hash, its height is a multiple
  of 2016, the start of a difficulty interval, and there are at least 12 headers. Then the tip is the last header,
  at its height and with the sum of the work.
\<close>

theorem btc_init_succeeds:
  assumes "hash_linked bitcoin env (submit_blocks_arg args)" "total_work (submit_blocks_arg args) < B256"
    and "unat (genesis_block_height args) + length (submit_blocks_arg args) < 2 ^ 64"
  shows "((\<exists>s. init_call bitcoin env args = Inr s) \<longleftrightarrow>
      attached_deposit env = 0 \<and> \<not> state_exists env \<and> is_self_call env \<and> acl_init_super_admin env \<and>
      unat (genesis_block_height args) mod 2016 = 0 \<and> 11 < length (submit_blocks_arg args) \<and>
      btc_block_hash env (hd (submit_blocks_arg args)) = genesis_block_hash args) \<and>
    (\<forall>s. init_call bitcoin env args = Inr s \<longrightarrow> (\<exists>e. get_last_block_header s = Inr e \<and>
      block_hash e = btc_block_hash env (last (submit_blocks_arg args)) \<and>
      unat (block_height e) + 1 = unat (genesis_block_height args) + length (submit_blocks_arg args) \<and>
      val (chain_work e) = total_work (submit_blocks_arg args)))"
proof -
  have height: "h mod 2016 = 0 \<longleftrightarrow> unat h mod 2016 = 0" for h :: u64
    by (simp add: word_unat_eq_iff unat_mod_distrib)
  have check: "btc_genesis_check n h len = Inr () \<longleftrightarrow> unat h mod 2016 = 0 \<and> 11 < len" for n h len
    unfolding btc_genesis_check_def req_Inr btc_config height MEDIAN_TIME_SPAN_def by blast
  have good: "good_init_args bitcoin env args \<longleftrightarrow> \<not> state_exists env \<and> is_self_call env \<and> acl_init_super_admin env \<and>
      unat (genesis_block_height args) mod 2016 = 0 \<and> 11 < length (submit_blocks_arg args) \<and>
      btc_block_hash env (hd (submit_blocks_arg args)) = genesis_block_hash args"
    using assms unfolding good_init_args_def by (auto simp: bitcoin_def check)
  have needed: "good_init_args bitcoin env args" if "init bitcoin env args = Inr s" for s
    using that assms(1-3) by (auto simp: good_init_args_def init_def init_genesis_def bitcoin_def req_Inr rbind_Inr
      Let_def split: list.splits)
  show ?thesis using btc.init_total [of env args] needed unfolding calls_Inr good [symmetric]
    by (auto simp: bitcoin_def)
qed

theorem btc_init_succeeds_witness:
  "\<exists>s e. init_call bitcoin (sc_host\<lparr>attached_deposit := 0\<rparr>) (sc_args 0) = Inr s \<and> get_last_block_header s = Inr e \<and>
    unat (block_height e) = 11"
proof -
  let ?env = "sc_host\<lparr>attached_deposit := 0\<rparr>"
  have hash: "btc_block_hash ?env = btc_block_hash sc_host" by (simp add: fun_eq_iff btc_block_hash_def double_sha256_def)
  have linked: "hash_linked bitcoin ?env hs" if "hash_linked bitcoin sc_host hs" for hs
    using that by (induction bitcoin sc_host hs rule: hash_linked.induct) (simp_all add: bitcoin_def hash)
  note G = sc_good_btc_args [unfolded good_init_args_def]
  have "hash_linked bitcoin ?env (submit_blocks_arg (sc_args 0))" "total_work (submit_blocks_arg (sc_args 0)) < B256"
    "unat (genesis_block_height (sc_args 0)) + length (submit_blocks_arg (sc_args 0)) < 2 ^ 64"
    using G linked by blast+
  from btc_init_succeeds [OF this] G show ?thesis by (fastforce simp: hash sc_args_def bitcoin_def)
qed

text \<open>
  C6: a run of the garbage collector removes the oldest blocks of the main chain, as many as the chain is
  longer than the threshold but at most \<open>batch_size\<close>; the invariant holds for the rest, which is never
  empty.
\<close>

theorem gc_removes_oldest:
  assumes "collision_free S g" "chain_inv S g c s" "run_mainchain_gc env batch_size s = Inr s'"
  shows "chain_inv S g (drop (gc_amount s (length c) batch_size) c) s' \<and> same_config s s' \<and>
    gc_amount s (length c) batch_size < length c"
  using assms by (rule gc_correct)

theorem gc_removes_oldest_witness:
  "\<exists>s'. run_mainchain_gc sc_host 2 (sc_client 9) = Inr s' \<and> chain_inv sc_headers (sc_main 0) (drop 2 (sc_chain 9)) s'"
  using gc_total [OF sc_collision_free sc_inv, of 9 sc_host 2]
    gc_removes_oldest [OF sc_collision_free sc_inv, of 9 sc_host 2] by (fastforce simp: gc_amount_def)

text \<open>C7: the garbage collector does not panic where the threshold is positive.\<close>

theorem gc_succeeds:
  assumes "collision_free S g" "chain_inv S g c s"
    and "\<not> is_paused env ''run_mainchain_gc'' \<or> caller_has_role env UnrestrictedRunGC"
    and "0 < gc_threshold s" "length c < 2 ^ 64"
  shows "\<exists>s'. run_mainchain_gc env batch_size s = Inr s'"
  using assms by (rule gc_total)

theorem gc_succeeds_witness: "\<exists>s'. run_mainchain_gc sc_host 2 (sc_client 9) = Inr s'"
  using gc_succeeds [OF sc_collision_free sc_inv, of 9 sc_host 2] by simp

section \<open>Transaction inclusion\<close>

text \<open>
  C8: for a block of the main chain, \<open>verify_transaction_inclusion\<close> answers true exactly if the feature is
  not paused, the block has the required confirmations, which are no more than the chain keeps, the
  path is not empty, the position fits 32 bits, and the path leads to the Merkle root of the block.
\<close>

theorem verify_accepts_iff:
  assumes "collision_free S g" "chain_inv S g c s" "length c < 2 ^ 64"
    and "i < length c" "block_hash (c ! i) = tx_block_blockhash args"
  shows "verify_transaction_inclusion env s args = Inr True \<longleftrightarrow>
    \<not> is_paused env ''verify_transaction_inclusion'' \<and> confirmations args \<le> gc_threshold s \<and>
    unat (confirmations args) \<le> length c - i \<and> merkle_proof args \<noteq> [] \<and> unat (tx_index args) < 2 ^ 32 \<and>
    path_root env (tx_id args) (unat (tx_index args)) (merkle_proof args) = merkle_root (block_header (c ! i))"
  using assms by (rule verify_on_chain)

theorem verify_accepts_iff_witness:
  "verify_transaction_inclusion sc_host (sc_client 4) (sc_proof 3) = Inr True \<and>
   verify_transaction_inclusion sc_host (sc_client 4) (sc_proof 4) \<noteq> Inr True"
  using verify_accepts_iff [OF sc_collision_free sc_inv, of 4 2 "sc_proof 3" sc_host]
    verify_accepts_iff [OF sc_collision_free sc_inv, of 4 2 "sc_proof 4" sc_host]
  by (simp_all add: sc_proof_def sc_main_def sc_path)

text \<open>C9: for any other block, a stored fork block included, the call fails.\<close>

theorem verify_rejects_forks:
  assumes "chain_inv S g c s" "\<forall>x \<in> set c. block_hash x \<noteq> tx_block_blockhash args"
  shows "verify_transaction_inclusion env s args \<noteq> Inr b"
  using assms by (rule verify_off_chain)

theorem verify_rejects_forks_witness:
  "headers_pool sc_forked (tx_block_blockhash sc_fork_proof) \<noteq> None \<and>
   verify_transaction_inclusion sc_host sc_forked sc_fork_proof \<noteq> Inr True"
  using verify_rejects_forks [OF sc_forked_inv, of sc_fork_proof] sc_fork_stored sc_fork_off
  by (simp add: sc_fork_proof_def)

text \<open>
  C10: a proof that \<open>merkle_proof_calculator\<close> makes for a transaction of a sufficiently confirmed main chain
  block with at least two transactions is accepted.
\<close>

theorem computed_proof_is_accepted:
  fixes pos :: u64
  assumes "collision_free S g" "chain_inv S g c s" "length c < 2 ^ 64" "i < length c"
    and "merkle_root_calculator env txs = Inr (merkle_root (block_header (c ! i)))"
    and "1 < length txs" "unat pos < length txs" "length txs \<le> 2 ^ 32"
    and "\<not> is_paused env ''verify_transaction_inclusion''" "n \<le> gc_threshold s" "unat n \<le> length c - i"
  shows "\<exists>path. merkle_proof_calculator env txs pos = Inr path \<and>
    verify_transaction_inclusion env s \<lparr>tx_id = txs ! unat pos, tx_block_blockhash = block_hash (c ! i),
      tx_index = pos, merkle_proof = path, confirmations = n\<rparr> = Inr True"
proof -
  have "txs \<noteq> []" using assms(6) by auto
  from merkle_proof_complete [OF this _ assms(7), of env] obtain path where
    path: "merkle_proof_calculator env txs pos = Inr path" "length path = tree_height (length txs)"
      "merkle_root_calculator env txs = Inr (path_root env (txs ! unat pos) (unat pos) path)"
    by (auto simp: compute_root_path)
  have "path \<noteq> []" using path(2) assms(6) by (auto simp: tree_height.simps)
  then show ?thesis
    using path assms verify_on_chain [OF assms(1-4), of "\<lparr>tx_id = txs ! unat pos, tx_block_blockhash = block_hash (c ! i),
      tx_index = pos, merkle_proof = path, confirmations = n\<rparr>" env] by auto
qed

theorem computed_proof_is_accepted_witness:
  "\<exists>path. merkle_proof_calculator sc_host sc_txs (1 :: u64) = Inr path \<and>
    verify_transaction_inclusion sc_host (sc_client 4) \<lparr>tx_id = sc_txs ! 1, tx_block_blockhash = sc_hash 2,
      tx_index = 1, merkle_proof = path, confirmations = 3\<rparr> = Inr True"
  using computed_proof_is_accepted [OF sc_collision_free sc_inv, of 4 2 sc_host sc_txs 1 3] sc_tx_root
  by (simp add: sc_main_def) (simp add: sc_txs_def)

text \<open>
  C11: if \<open>verify_transaction_inclusion_v2\<close> answers true, and \<open>coinbase_tx_id\<close> is the first transaction of
  the block, then the transaction is one of the block's, at the given position whenever that is a
  position of the block; unless the hash collides on the pairs that were hashed, or the coinbase
  transaction is itself the hash of one of them.
\<close>

theorem verify_v2_accepts_only_transactions:
  assumes "collision_free S g" "chain_inv S g c s" "length c < 2 ^ 64"
    and "verify_transaction_inclusion_v2 env s args = Inr True" "txs \<noteq> []" "coinbase_tx_id args = txs ! 0"
    and "\<And>x. x \<in> set c \<Longrightarrow> block_hash x = tx_block_blockhash args \<Longrightarrow>
      merkle_root_calculator env txs = Inr (merkle_root (block_header x))"
    and "collision_free_pairs env (path_pairs env (tx_id args) (unat (tx_index args)) (merkle_proof args) @
      path_pairs env (txs ! 0) 0 (coinbase_merkle_proof args) @ tree_pairs env txs)"
    and "no_inner_node env (txs ! 0) (path_pairs env (txs ! 0) 0 (coinbase_merkle_proof args) @ tree_pairs env txs)"
  shows "\<exists>m < length txs. tx_id args = txs ! m \<and>
    (unat (tx_index args) mod 2 ^ length (merkle_proof args) < length txs \<longrightarrow>
      m = unat (tx_index args) mod 2 ^ length (merkle_proof args))"
  using assms by (rule verify_v2_sound)

theorem verify_v2_accepts_only_transactions_witness:
  "verify_transaction_inclusion_v2 sc_host (sc_client 4) sc_proof_v2 = Inr True \<and>
   (\<exists>m < length sc_txs. tx_id sc_proof_v2 = sc_txs ! m)"
proof -
  have "merkle_root_calculator sc_host sc_txs = Inr (merkle_root (block_header x))" if "x \<in> set (sc_chain 4)" for x
    using that sc_tx_root by (auto simp: sc_chain_def sc_main_def)
  then show ?thesis
    using verify_v2_accepts_only_transactions [OF sc_collision_free sc_inv _ sc_v2_accepted, of sc_txs] sc_v2_pairs sc_v2_accepted
    by (auto simp: sc_proof_v2_def sc_txs_def)
qed

section \<open>Merkle trees\<close>

text \<open>
  C12: \<open>merkle_proof_calculator\<close> succeeds for every position of a list, and its path, as long as the tree is
  high, leads from that element to the root of the reference implementation.
\<close>

theorem merkle_proofs_verify:
  fixes pos :: "'w::len word"
  assumes "hs \<noteq> []" "1 < LENGTH('w)" "unat pos < length hs"
  shows "\<exists>path. merkle_proof_calculator env hs pos = Inr path \<and> length path = tree_height (length hs) \<and>
    merkle_root_calculator env hs = Inr (compute_root_from_merkle_proof env (hs ! unat pos) pos path)"
  using assms by (rule merkle_proof_complete)

theorem merkle_proofs_verify_witness:
  "\<exists>path. merkle_proof_calculator sc_host sc_txs (1 :: usize) = Inr path \<and> length path = 1 \<and>
    merkle_root_calculator sc_host sc_txs = Inr (compute_root_from_merkle_proof sc_host (sc_txs ! 1) (1 :: usize) path)"
  using merkle_proofs_verify [of sc_txs "1 :: usize" sc_host] by (simp add: sc_txs_def tree_height.simps)

text \<open>
  C13: a path as long as the tree is high that leads to the root starts in an element of the list, the one at
  the given position modulo the width of the tree if there is one; unless hashed pairs collide.
\<close>

theorem merkle_proofs_sound:
  fixes pos :: "'w::len word"
  assumes "1 < LENGTH('w)" "hs \<noteq> []" "length ps = tree_height (length hs)"
    and "merkle_root_calculator env hs = Inr (compute_root_from_merkle_proof env h pos ps)"
    and "collision_free_pairs env (path_pairs env h (unat pos) ps @ tree_pairs env hs)"
  shows "\<exists>m < length hs. h = hs ! m \<and>
    (unat pos mod 2 ^ length ps < length hs \<longrightarrow> m = unat pos mod 2 ^ length ps)"
  using assms by (rule merkle_proof_sound)

theorem merkle_proofs_sound_witness: "\<exists>m < length sc_txs. H256 (replicate 32 7) = sc_txs ! m \<and> m = 1"
  using merkle_proofs_sound [of sc_txs "[H256 (replicate 32 0)]" sc_host "H256 (replicate 32 7)" "1 :: usize"] sc_tx_root sc_v2_pairs
  by (auto simp: sc_txs_def tree_height.simps sc_v2_simps)

section \<open>Consensus rules\<close>

text \<open>
  C14: a Bitcoin header on the tip is stored exactly if its difficulty is the required one, its time is past
  the median of the last eleven blocks and at most two hours ahead of the clock (which, with the two
  hours added, still fits 32 bits), its version is at least 4 and its hash meets its target.
\<close>

theorem btc_header_rules:
  assumes "has_main_chain s c" "11 < length c" "prev_block_hash header = block_hash (last c)"
    and "val (chain_work (last c)) + block_work (bits header) < B256" "unat (block_height (last c)) + 1 < 2 ^ 64"
  shows "(\<exists>s'. btc_submit_block_header env header False s = Inr s') \<longleftrightarrow>
    btc_get_next_work_required (loop_gas env) (btc_get_config s) header (last c) s = Inr (bits header) \<and>
    median_at c (length c - 1) < time header \<and>
    unat (block_timestamp_ms env) div 1000 + 7200 < 2 ^ 32 \<and>
    unat (time header) \<le> unat (block_timestamp_ms env) div 1000 + 7200 \<and> sint (version header) \<ge> 4 \<and>
    val (u256_from_le_bytes (h256_bytes (btc_block_hash_pow env header))) \<le> target_val (bits header)"
  using assms by (rule btc_extend_tip)

theorem btc_header_rules_witness:
  "(\<exists>s'. btc_submit_block_header sc_host (block_header (sc_main 12)) False (sc_client 11) = Inr s') \<and>
   \<not> (\<exists>s'. btc_submit_block_header sc_host (sc_header (sc_hash 11) 6 sc_easy) False (sc_client 11) = Inr s')"
  using btc_header_rules [OF sc_main_chain, of 11 "block_header (sc_main 12)" sc_host]
    btc_header_rules [OF sc_main_chain, of 11 "sc_header (sc_hash 11) 6 sc_easy" sc_host] sc_next_rules
  by (simp add: sc_main_work sc_work sc_median sc_main_height sc_time sc_bits sc_targets sc_main_fields sc_pow)

text \<open>
  C15: at the end of an adjustment interval of the main chain the required Bitcoin difficulty exists. It is the
  compact form of the target of the last block, scaled by the duration since the first block of the
  interval, kept between a quarter and four times two weeks, rounded down and capped at the limit.
\<close>

theorem btc_difficulty_adjustment:
  assumes "has_main_chain s c" "2015 \<le> i" "i < length c" "(unat (block_height (c ! i)) + 1) mod 2016 = 0"
    and "target_val (bits (block_header (c ! i))) \<le> val (pow_limit (get_bitcoin_config n))"
  shows "\<exists>x. btc_get_next_work_required gas (get_bitcoin_config n) header (c ! i) s = target_to_bits x \<and>
    val x = min (val (pow_limit (get_bitcoin_config n)))
      (target_val (bits (block_header (c ! i))) * nat (clamp 302400 4838400
        (i64_from_u32 (time (block_header (c ! i))) - i64_from_u32 (time (block_header (c ! (i - 2015)))))) div 1209600)"
  using assms by (rule btc_next_work_adjust)

theorem btc_difficulty_adjustment_witness:
  "\<exists>x. btc_get_next_work_required 0 (get_bitcoin_config Mainnet) (block_header (sc_main 2016)) (sc_main 2015) (sc_client 2015) =
    target_to_bits x \<and> val x = 65535 * 2 ^ 206"
  using btc_difficulty_adjustment [OF sc_main_chain, of 2015 2015 Mainnet 0 "block_header (sc_main 2016)"]
  by (simp add: sc_main_height sc_time sc_bits sc_targets clamp_def i64_from_u32_def val_limits del: get_bitcoin_config.simps)

text \<open>
  C16: between adjustments on the Bitcoin test network the walk back over minimum-difficulty blocks ends, with
  gas for the at most 2015 blocks of an interval: a late block needs the minimum difficulty, any
  other the difficulty of the last block that did not use that rule.
\<close>

theorem btc_min_difficulty_walk_ends:
  assumes "has_main_chain s c" "i < length c" "unat (block_height (c ! i)) mod 2016 \<le> i"
    and "unat (block_height (c ! i)) + 1 < 2 ^ 64" "(unat (block_height (c ! i)) + 1) mod 2016 \<noteq> 0"
    and "unat (time (block_header (c ! i))) + 1200 < 2 ^ 32" "2015 \<le> gas"
  shows "\<exists>j \<le> i. btc_get_next_work_required gas (get_bitcoin_config Testnet) header (c ! i) s =
      Inr (if unat (time (block_header (c ! i))) + 1200 < unat (time header) then 0x1d00ffff else bits (block_header (c ! j))) \<and>
    (\<forall>k. j < k \<and> k \<le> i \<longrightarrow> bits (block_header (c ! k)) = 0x1d00ffff) \<and>
    (bits (block_header (c ! j)) = 0x1d00ffff \<longrightarrow> unat (block_height (c ! j)) mod 2016 = 0)"
  using assms by (rule btc_next_work_testnet)

theorem btc_min_difficulty_walk_ends_witness:
  "btc_get_next_work_required 2015 (get_bitcoin_config Testnet) (block_header (sc_main 12)) (sc_main 11) (sc_client 11) =
    Inr 0x1d00ffff"
  using btc_min_difficulty_walk_ends [OF sc_main_chain, of 11 11 2015 "block_header (sc_main 12)"]
  by (auto simp: sc_main_height sc_time sc_bits del: get_bitcoin_config.simps)

text \<open>
  C17: the Litecoin adjustment on the main chain counts from the block before the interval, and targets of more
  than 235 bits lose their lowest bit on the way; nothing overflows.
\<close>

theorem ltc_difficulty_adjustment:
  assumes "has_main_chain s c" "2016 \<le> i" "i < length c" "(unat (block_height (c ! i)) + 1) mod 2016 = 0"
    and "target_val (bits (block_header (c ! i))) \<le> val (pow_limit (get_litecoin_config n))"
  shows "\<exists>x. ltc_get_next_work_required gas (get_litecoin_config n) header (c ! i) s = target_to_bits x \<and>
    val x = min (val (pow_limit (get_litecoin_config n)))
      (ltc_scaled (target_val (bits (block_header (c ! i)))) (nat (clamp 75600 1209600
        (i64_from_u32 (time (block_header (c ! i))) - i64_from_u32 (time (block_header (c ! (i - 2016))))))))"
  using assms by (rule ltc_next_work_adjust)

theorem ltc_difficulty_adjustment_witness:
  "\<exists>x. ltc_get_next_work_required 0 (get_litecoin_config Mainnet) (block_header (sc_main 4032)) (sc_main 4031) (sc_client 4031) =
    target_to_bits x \<and> val x = 65535 * 2 ^ 206"
  using ltc_difficulty_adjustment [OF sc_main_chain, of 4031 4031 Mainnet 0 "block_header (sc_main 4032)"]
  by (simp add: sc_main_height sc_time sc_bits sc_targets clamp_def i64_from_u32_def val_limits ltc_scaled_def
      del: get_litecoin_config.simps)

text \<open>
  C18: on the Dogecoin main network every block is adjusted to the time since the one before: an eighth of the
  deviation from a minute counts, within 45 and 90 seconds.
\<close>

theorem doge_difficulty_adjustment:
  assumes "has_main_chain s c" "1 \<le> i" "i < length c" "unat (block_height (c ! i)) + 1 < 2 ^ 64"
    and "target_val (bits (block_header (c ! i))) \<le> val (pow_limit (get_dogecoin_config Mainnet))"
  shows "\<exists>x. doge_get_next_work_required gas (get_dogecoin_config Mainnet) header (c ! i) s = target_to_bits x \<and>
    val x = min (val (pow_limit (get_dogecoin_config Mainnet)))
      (target_val (bits (block_header (c ! i))) * nat (clamp 45 90 (60 +
        (i64_from_u32 (time (block_header (c ! i))) - i64_from_u32 (time (block_header (c ! (i - 1)))) - 60) sdiv 8)) div 60)"
  using assms by (rule doge_next_work_mainnet)

theorem doge_difficulty_adjustment_witness:
  "\<exists>x. doge_get_next_work_required 0 (get_dogecoin_config Mainnet) (block_header (sc_main 12)) (sc_main 11) (sc_client 11) =
    target_to_bits x \<and> val x = 65535 * 2 ^ 208 * 53 div 60"
  using doge_difficulty_adjustment [OF sc_main_chain, of 11 11 0 "block_header (sc_main 12)"]
  by (simp add: sc_main_height val_limits sc_time sc_bits sc_targets clamp_def i64_from_u32_def signed_divide_int_def
      del: get_dogecoin_config.simps)

text \<open>
  C19: on the Zcash main network the required difficulty of a block follows from the mean of the last 17 targets
  and from the medians of the times of the last eleven blocks and of the eleven before the window.
\<close>

theorem zcash_difficulty_adjustment:
  assumes "has_main_chain s c" "28 \<le> i" "i < length c"
    and "\<forall>x \<in> set c. target_val (bits (block_header x)) \<le> val (z_pow_limit (get_zcash_config Mainnet))"
  shows "\<exists>average. val average = mean_target c i \<and>
    zcash_get_next_work_required (get_zcash_config Mainnet) header (c ! i) s =
      rbind (zcash_calculate_next_work_required (get_zcash_config Mainnet) average (median_at c i) (median_at c (i - 17)))
        (\<lambda>expected. Inr \<lparr>expected_bits = expected, prev_block_median_time_past = median_at c i\<rparr>)"
  using assms by (rule zcash_next_work)

theorem zcash_difficulty_adjustment_witness:
  "\<exists>average. val average = 65535 * 2 ^ 208 \<and>
    zcash_get_next_work_required (get_zcash_config Mainnet) (zc_header 29) (zc_block 28) (zc_client 28) =
      rbind (zcash_calculate_next_work_required (get_zcash_config Mainnet) average 23 6)
        (\<lambda>expected. Inr \<lparr>expected_bits = expected, prev_block_median_time_past = 23\<rparr>)"
  using zcash_difficulty_adjustment [OF zc_main_chain, of 28 28 "zc_header 29"] zc_targets [of 28] sc_limit(4)
  by (simp add: zc_mean zc_medians zc_nth zc_chain_simps del: get_zcash_config.simps)

text \<open>
  C20: the Zcash adjustment scales the mean target by the time between two medians, a quarter of whose deviation
  counts, within 1071 and 1683 seconds, capped at the limit; it exists, and is exact or, where the
  multiplication drops its carry, too small by \<open>2 ^ 128\<close>.
\<close>

theorem zcash_scaling:
  assumes "val average \<le> val (z_pow_limit (get_zcash_config n))"
  shows "\<exists>x carry. zcash_calculate_next_work_required (get_zcash_config n) average last_median first_median = target_to_bits x \<and>
    carry \<le> 1 \<and> carry * B128 \<le> val average div 1275 * nat (clamp 1071 1683
        (1275 + (i64_from_u32 last_median - i64_from_u32 first_median - 1275) sdiv 4)) \<and>
    val x = min (val (z_pow_limit (get_zcash_config n))) (val average div 1275 * nat (clamp 1071 1683
        (1275 + (i64_from_u32 last_median - i64_from_u32 first_median - 1275) sdiv 4)) - carry * B128)"
  using assms by (rule zcash_retarget)

theorem zcash_scaling_witness:
  "\<exists>x. zcash_calculate_next_work_required (get_zcash_config Mainnet) (u256_from 1275) 23 6 = target_to_bits x \<and> val x = 1071"
proof -
  have v: "val (u256_from 1275) = 1275" "(1275 :: nat) \<le> 2 ^ 243 - 1" by (simp_all add: u256_from_def val_def)
  have "nat (clamp 1071 1683 (1275 + (i64_from_u32 23 - i64_from_u32 6 - 1275) sdiv 4)) = 1071"
    by (simp add: clamp_def i64_from_u32_def signed_divide_int_def)
  then obtain x carry where x: "zcash_calculate_next_work_required (get_zcash_config Mainnet) (u256_from 1275) 23 6 = target_to_bits x"
    "carry * B128 \<le> 1071" "val x = min (2 ^ 243 - 1) (1071 - carry * B128)"
    using zcash_scaling [of "u256_from 1275" Mainnet 23 6] v(2) unfolding v(1) val_limits by auto
  then have "carry = 0" by (cases carry) auto
  then show ?thesis using x by (intro exI [of _ x]) simp
qed

text \<open>
  C21: a merge-mined Dogecoin block is stored only if it has the required difficulty and an admissible time, and
  its parent block, of another chain, proves the work: the coinbase transaction of the parent lies under
  the parent's Merkle root, its script holds the root of the tree in which this block sits at the given
  slot, the slot lies in that tree, and the parent's scrypt hash meets this block's target.
\<close>

theorem doge_merged_mining_rules:
  assumes "doge_submit_block_header env (header, Some aux) False s = Inr s'" "\<not> skip_pow_verification s"
  shows "\<exists>p coinbase script pos. headers_pool s (prev_block_hash header) = Some p \<and>
    doge_get_next_work_required (loop_gas env) (doge_get_config s) header p s = Inr (bits header) \<and>
    (\<exists>median. get_median_time_past p (get_prev_header s) = Inr median \<and> median < time header) \<and>
    unat (time header) \<le> unat (block_timestamp_ms env) div 1000 + 7200 \<and>
    parse_coinbase env (aux_coinbase_tx aux) = Some (coinbase, Some script) \<and>
    path_root env coinbase 0 (aux_merkle_proof aux) = merkle_root (aux_parent_block aux) \<and>
    str_find (h256_to_string env (path_root env (btc_block_hash env header) (unat (aux_chain_id aux))
      (aux_chain_merkle_proof aux))) script = Some pos \<and>
    length (aux_chain_merkle_proof aux) \<le> 30 \<and> unat (aux_chain_id aux) < 2 ^ length (aux_chain_merkle_proof aux) \<and>
    get_chain_id header = 0x62 \<and> get_chain_id (aux_parent_block aux) \<noteq> 0x62 \<and>
    val (u256_from_le_bytes (h256_bytes (scrypt_block_hash_pow env (aux_parent_block aux)))) \<le> target_val (bits header)"
proof -
  from doge_accepted_aux [OF assms(1)] obtain p where p: "headers_pool s (prev_block_hash header) = Some p"
    "check_aux env s header aux = Inr ()"
    "doge_get_next_work_required (loop_gas env) (doge_get_config s) header p s = Inr (bits header)"
    "\<exists>median. get_median_time_past p (get_prev_header s) = Inr median \<and> median < time header"
    "unat (time header) \<le> unat (block_timestamp_ms env) div 1000 + 7200" by blast
  from p(2) show ?thesis
    by (rule check_aux_Inr) (use p assms(2) in \<open>auto simp: pow_ok_def val_le val_target_from_bits\<close>)
qed

theorem doge_merged_mining_rules_witness:
  "(\<exists>s'. doge_submit_block_header dg_host (dg_header, Some dg_aux) False (sc_client 11) = Inr s') \<and>
   unat (aux_chain_id dg_aux) < 2 ^ length (aux_chain_merkle_proof dg_aux) \<and> get_chain_id dg_header = 0x62"
  using dg_submitted doge_merged_mining_rules [of dg_host dg_header dg_aux "sc_client 11"] by auto

text \<open>
  C22: a Zcash header is stored only if its difficulty is the required one, its time is past the median of its
  parent, at most 90 minutes past it and at most two hours ahead of the clock, its version is at least
  4, its Equihash solution is valid and its hash meets its target.
\<close>

theorem zcash_header_rules:
  assumes "zcash_submit_block_header env header False s = Inr s'"
  shows "\<exists>p r. headers_pool s (prev_block_hash header) = Some p \<and>
    zcash_get_next_work_required (zcash_get_config s) header p s = Inr r \<and> expected_bits r = bits header \<and>
    prev_block_median_time_past r < time header \<and>
    unat (time header) \<le> unat (prev_block_median_time_past r) + 5400 \<and>
    unat (time header) \<le> unat (block_timestamp_ms env) div 1000 + 7200 \<and> sint (version header) \<ge> 4 \<and>
    equihash_ok env 200 9 (get_block_header_vec_for_equihash header) (h256_bytes (znonce header)) (solution header) \<and>
    val (u256_from_le_bytes (h256_bytes (zcash_block_hash_pow env header))) \<le> target_val (bits header)"
  using assms by (rule zcash_accepted) (auto simp: pow_ok_def val_le val_target_from_bits)

theorem zcash_header_rules_witness:
  "(\<exists>s'. zcash_submit_block_header sc_host zc_next False (zc_client 28) = Inr s') \<and>
   (\<exists>r. zcash_get_next_work_required (zcash_get_config (zc_client 28)) zc_next (zc_block 28) (zc_client 28) = Inr r \<and>
     expected_bits r = bits zc_next)"
  using zc_submitted zcash_header_rules [of sc_host zc_next "zc_client 28"] zc_next_parent by fastforce

section \<open>The relayer\<close>

text \<open>
  C23: the blocks of an honest node become the main chain. Where the contract's tip is the parent of the
  node's block at the next height and the node serves a linked chain up to \<open>stop\<close>, the transactions that the
  relayer signs for these heights all succeed on the contract in order, and afterwards the tip is the node's
  block at \<open>stop\<close>, for every positive batch size. The new headers follow the consensus rules of the main
  network (\<open>valid_run\<close>: difficulty, median time, clock, version, proof of work), unless the contract skips the
  checks. No fetching task crashes, signing queries succeed and the arguments are decoded as encoded. The
  runtime refuses used nonces, other receivers and methods, too little gas and every panic of the method; the
  relayer signs for the contract's account, its account may submit, and 300 Tgas and the deposit of
  half a NEAR cover the gas and the storage of a batch.
\<close>

theorem relayed_blocks_become_the_main_chain:
  fixes c :: "btc_ext_header list" and stop :: u64
  assumes "collision_free S g" "chain_inv S g c s"
    and "serves_chain env node get_aux header (block_height (last c) + 1) stop (block_hash (last c))"
    and "\<And>h. run h = Joined (get_block_header node get_aux h)"
    and "block_height (last c) < stop" "Suc (unat stop) < 2 ^ 64"
    and "\<And>h. block_height (last c) < h \<Longrightarrow> h \<le> stop \<Longrightarrow> known_header S env (header h)"
    and "follows_rules s env (min (length c) (unat (gc_threshold s))) (map block_header c) (unat (block_height (last c)) + 1)
      (map header (word_range_incl (block_height (last c) + 1) stop))"
    and "val (chain_work (last c)) + total_work (map header (word_range_incl (block_height (last c) + 1) stop)) < B256"
    and "may_submit rt env (signer_account signer)"
    and "affordable rt usage (call_env rt env (signer_account signer) (5 * 10 ^ 23)) batch_size"
    and "0 < gc_threshold s" "contract_account signer = rt_contract rt"
    and "\<And>n. \<exists>r. key_query signer n = Inr r" "response_kind response = AccessKey m" "0 < batch_size"
    and "unat m + length (word_range_incl (block_height (last c) + 1) stop) < 2 ^ 64"
    and "\<And>bs. \<exists>args. to_vec bs = Inr args \<and> ((\<forall>b \<in> set bs. wf_btc_header (fst b)) \<longrightarrow> decode args = Some (map fst bs))"
    and "\<And>t. open_tx (sign signer t) = t"
  shows "\<exists>txs m' s' tip. sign_submit_blocks (Inr response) signer to_vec
      (fetch_blocks_to_submit run (block_height (last c) + 1) stop) batch_size = Inr txs \<and>
    for_each (execute rt open_tx decode usage env) txs (m, s) = Inr (m', s') \<and> get_last_block_header s' = Inr tip \<and>
    block_hash tip = btc_block_hash env (header stop) \<and> block_height tip = stop"
  using assms by (rule relayed_blocks)

theorem relayed_blocks_become_the_main_chain_witness:
  "\<not> skip_pow_verification sc_relayed \<and>
   (\<exists>txs m' s' tip. sign_submit_blocks (Inr \<lparr>response_kind = AccessKey 7, response_block_hash = []\<rparr>) sc_signer sc_encode
      (fetch_blocks_to_submit (\<lambda>h. Joined (get_block_header (sc_node 20 100) sc_get_aux h)) 12 14) 2 = Inr txs \<and>
    for_each (execute sc_runtime (\<lambda>t. t) sc_decode sc_usage sc_env) txs (7, sc_relayed) = Inr (m', s') \<and>
    get_last_block_header s' = Inr tip \<and> block_hash tip = sc_hash 14 \<and> block_height tip = 14)"
proof -
  have tip: "block_height (last (sc_chain 11)) + 1 = 12" "block_height (last (sc_chain 11)) = 11"
    by (simp_all add: sc_main_def sc_block_def)
  have heights: "word_range_incl 12 14 = [12, 13, 14 :: u64]" by (simp add: word_range_incl_def upt_rec)
  then have range: "word_range_incl (block_height (last (sc_chain 11)) + 1) 14 = [12, 13, 14]" unfolding tip(1) .
  have "\<exists>txs m' s' tip. sign_submit_blocks (Inr \<lparr>response_kind = AccessKey 7, response_block_hash = []\<rparr>) sc_signer sc_encode
      (fetch_blocks_to_submit (\<lambda>h. Joined (get_block_header (sc_node 20 100) sc_get_aux h)) (block_height (last (sc_chain 11)) + 1) 14) 2 = Inr txs \<and>
    for_each (execute sc_runtime (\<lambda>t. t) sc_decode sc_usage sc_env) txs (7, sc_relayed) = Inr (m', s') \<and>
    get_last_block_header s' = Inr tip \<and> block_hash tip = btc_block_hash sc_env (sc_relay_header 14) \<and> block_height tip = 14"
  proof (rule relayed_blocks_become_the_main_chain [OF sc_collision_free sc_relayed_inv])
    show "serves_chain sc_env (sc_node 20 100) sc_get_aux sc_relay_header (block_height (last (sc_chain 11)) + 1) 14
        (block_hash (last (sc_chain 11)))"
      unfolding tip using sc_serves by (simp add: sc_main_fields)
    show "known_header sc_headers sc_env (sc_relay_header h)" if "block_height (last (sc_chain 11)) < h" "h \<le> 14" for h
    proof -
      have "unat h < 4100" using that(2) by (simp add: word_le_nat_alt)
      then show ?thesis using sc_main_in [of "unat h"] sc_main_wf
        by (simp add: known_header_def sc_relay_header_def sc_main_hash)
    qed
    show "follows_rules sc_relayed sc_env (min (length (sc_chain 11)) (unat (gc_threshold sc_relayed))) (map block_header (sc_chain 11))
        (unat (block_height (last (sc_chain 11))) + 1) (map sc_relay_header (word_range_incl (block_height (last (sc_chain 11)) + 1) 14))"
      unfolding range tip(2) using sc_rules by (simp add: sc_relayed_def heights)
    show "val (chain_work (last (sc_chain 11))) + total_work (map sc_relay_header (word_range_incl (block_height (last (sc_chain 11)) + 1) 14)) < B256"
      unfolding range by (simp add: total_work_def sc_relay_header_def sc_bits sc_work sc_main_work)
    show "may_submit sc_runtime sc_env (signer_account sc_signer)" by (rule sc_may_submit)
    show "affordable sc_runtime sc_usage (call_env sc_runtime sc_env (signer_account sc_signer) (5 * 10 ^ 23)) 2" by (rule sc_affordable)
    show "unat (7 :: u64) + length (word_range_incl (block_height (last (sc_chain 11)) + 1) 14) < 2 ^ 64" unfolding range by simp
    show "\<exists>args. sc_encode bs = Inr args \<and> ((\<forall>b \<in> set bs. wf_btc_header (fst b)) \<longrightarrow> sc_decode args = Some (map fst bs))" for bs
      by (rule sc_codec)
  qed (use tip(2) in \<open>simp_all add: sc_relayed_def sc_signer_def sc_runtime_def\<close>)
  moreover have "\<not> skip_pow_verification (sc_client 11)" by simp
  ultimately show ?thesis unfolding tip by (simp add: sc_relay_header_def sc_main_hash sc_relayed_def)
qed

text \<open>
  C24: where the contract and the Bitcoin node are on different forks, the relayer finds the newest block
  of the contract's main chain, among the tip and the \<open>fork_len\<close> blocks before it, that the node has at the
  same height.
\<close>

theorem relayer_finds_fork_point:
  assumes "collision_free S g" "chain_inv S g c s"
    and "0 < fork_len" "unat fork_len + 1 \<le> unat (block_height (last c))"
    and "i < length c" "length c \<le> i + unat fork_len + 1"
    and "get_block_header_by_height node get_aux (block_height (c ! i)) = Inr h" "hash_of h = block_hash (c ! i)"
    and "\<And>j. i < j \<Longrightarrow> j < length c \<Longrightarrow> \<exists>h. get_block_header_by_height node get_aux (block_height (c ! j)) = Inr h \<and>
      h256_to_string env (hash_of h) \<noteq> h256_to_string env (block_hash (c ! j))"
  shows "get_last_correct_block_height env (contract_near env s)
    (get_bitcoin_block_hash_by_height env hash_of node get_aux) fork_len = Inr (block_height (c ! i))"
  using assms(7-9)
  by (intro direct.finds_fork_point [OF assms(1-6)]) (fastforce simp: get_bitcoin_block_hash_by_height_def)+

theorem relayer_finds_fork_point_witness:
  "get_last_correct_block_height sc_host (contract_near sc_host (sc_client 9))
    (get_bitcoin_block_hash_by_height sc_host (btc_block_hash sc_host) (sc_node 12 7) sc_get_aux) 5 = Inr 6"
proof -
  have height: "block_height (sc_main k) = word_of_nat k" if "k < 4100" for k
    using that by (simp add: sc_main_def sc_block_def)
  have "get_last_correct_block_height sc_host (contract_near sc_host (sc_client 9))
    (get_bitcoin_block_hash_by_height sc_host (btc_block_hash sc_host) (sc_node 12 7) sc_get_aux) 5 = Inr (block_height (sc_chain 9 ! 6))"
  proof (rule relayer_finds_fork_point [OF sc_collision_free sc_inv])
    show "get_block_header_by_height (sc_node 12 7) sc_get_aux (block_height (sc_chain 9 ! 6)) = Inr (block_header (sc_main 6))"
      by (simp add: height sc_node_header)
    fix j :: nat assume "6 < j" "j < length (sc_chain 9)"
    then have j: "7 \<le> j" "j \<le> 9" by auto
    then have "unat (word_of_nat j :: u64) = j" by (simp add: unat_of_nat)
    then have "\<not> word_of_nat j < (7 :: u64)" using j by (simp add: word_less_nat_alt)
    moreover have "h256_to_string sc_host (sc_hash 5000) \<noteq> h256_to_string sc_host (sc_hash j)"
      using sc_string_inj sc_hash_inj [of 5000 j] j by auto
    ultimately show "\<exists>h. get_block_header_by_height (sc_node 12 7) sc_get_aux (block_height (sc_chain 9 ! j)) = Inr h \<and>
        h256_to_string sc_host (btc_block_hash sc_host h) \<noteq> h256_to_string sc_host (block_hash (sc_chain 9 ! j))"
      using j by (simp add: height sc_node_header sc_main_hash sc_main_fields)
  qed (simp_all add: sc_main_height sc_main_hash sc_main_fields)
  then show ?thesis by (simp add: height)
qed

text \<open>
  C25: an iteration of the relayer's loop, in any order of its concurrent tasks, changes the first height to submit
  in three ways only. It moves behind the blocks it fetched if the contract has the last of them already; it
  moves behind the last block of a transaction of this iteration that succeeded; or a transaction of this
  iteration failed because the contract did not know the parent, or for lack of gas, and the height is reset
  to the block after the common chain. In the first two cases every height between the old and the new one was
  fetched. In particular no other failure moves the height.
\<close>

theorem relayer_never_skips:
  assumes "sync_iteration env hash_of it st st'"
    and "\<And>h. it_tasks it h = JoinError \<or> it_tasks it h = Joined (get_block_header node get_aux h)"
  shows "first_block_height_to_submit st' = first_block_height_to_submit st \<or>
    reset_to it st (first_block_height_to_submit st') \<or>
    ((skipped_to env hash_of it st (first_block_height_to_submit st') \<or> submitted_to it st (first_block_height_to_submit st')) \<and>
     (\<forall>h. first_block_height_to_submit st \<le> h \<and> h < first_block_height_to_submit st' \<longrightarrow>
       (\<exists>b. it_tasks it h = Joined (Inr b))))"
proof -
  have "fetched t \<noteq> None \<longleftrightarrow> (\<exists>b. t = Joined (Inr b))" for t :: "('a \<times> 'b) task"
    by (cases t rule: fetched.cases) auto
  then show ?thesis using sync_iteration_height [OF assms(1) honest_get_block_header [OF assms(2)]] by simp
qed

theorem relayer_never_skips_witness:
  "\<exists>st'. sync_iteration sc_host (btc_block_hash sc_host) (sc_iteration (Inr (Inr 0))) sc_start st' \<and>
    first_block_height_to_submit st' = 10 \<and>
    (\<forall>h. 5 \<le> h \<and> h < 10 \<longrightarrow> (\<exists>b. it_tasks (sc_iteration (Inr (Inr 0))) h = Joined (Inr b)))"
proof -
  obtain tx :: "transaction signed_submit" and st' where
    run: "sync_iteration sc_host (btc_block_hash sc_host) (sc_iteration (Inr (Inr 0))) sc_start st'" and
    st': "st' = fold apply_action (task_actions tx (Inr (Inr 0)) (Inr 3)) sc_start" "last_block_height tx = 9"
    using sc_iterate by blast
  have h: "first_block_height_to_submit st' = 10" "first_block_height_to_submit sc_start = 5"
    using st' by (simp_all add: task_actions_def sc_start_def)
  have "\<not> reset_to (sc_iteration (Inr (Inr 0))) sc_start 10" by (simp add: reset_to_def wants_reset_def sc_iteration_def)
  moreover have "it_tasks (sc_iteration (Inr (Inr 0))) h = Joined (get_block_header (sc_node 9 100) sc_get_aux h)" for h
    by (simp add: sc_iteration_def)
  ultimately show ?thesis using run h relayer_never_skips [OF run] by (intro exI [of _ st']) simp
qed

text \<open>
  C26: the relayer understands the contract. After blocks whose parent the contract does not know, and after a
  call that ran out of gas, it continues after the last common block, in the latter case with smaller
  batches; after a successful call it continues after the submitted blocks. The runtime is assumed to
  report the text of a panic and the lack of gas.
\<close>

theorem relayer_reacts_to_contract:
  assumes "faithful_report report" "r = submit_blocks bitcoin usage env (h # hs) s"
    and "st' = fold apply_action (reaction tx c (contract_outcome report value gas receipts r)) st"
  shows "(\<not> is_paused env ''submit_blocks'' \<and> is_trusted_relayer env \<and> headers_pool s (prev_block_hash h) = None \<longrightarrow>
      st' = st\<lparr>first_block_height_to_submit := c + 1\<rparr>) \<and>
    (r = Inl GasExceeded \<longrightarrow>
      st' = st\<lparr>first_block_height_to_submit := c + 1, relay_sizer := on_gas_exceeded (relay_sizer st)\<rparr>) \<and>
    (\<forall>x. r = Inr x \<longrightarrow> first_block_height_to_submit st' = last_block_height tx + 1)"
proof (intro conjI impI allI)
  assume "\<not> is_paused env ''submit_blocks'' \<and> is_trusted_relayer env \<and> headers_pool s (prev_block_hash h) = None"
  then have "r = Inl (Panic ''PrevBlockNotFound'')" using btc_missing_parent unfolding assms(2) by blast
  then show "st' = st\<lparr>first_block_height_to_submit := c + 1\<rparr>"
    unfolding assms(3) by (simp only: reaction_to_result(1) [OF assms(1)]) simp
next
  assume "r = Inl GasExceeded"
  then show "st' = st\<lparr>first_block_height_to_submit := c + 1, relay_sizer := on_gas_exceeded (relay_sizer st)\<rparr>"
    unfolding assms(3) by (simp only: reaction_to_result(2) [OF assms(1)]) simp
next
  fix x assume "r = Inr x"
  then show "first_block_height_to_submit st' = last_block_height tx + 1"
    unfolding assms(3) by (simp only: reaction_to_result(3) [OF assms(1)])
qed

theorem relayer_reacts_to_contract_witness:
  "fold apply_action (reaction \<lparr>first_block_height = 9, last_block_height = 9, signed_tx = ()\<rparr> 4
      (contract_outcome sc_report (\<lambda>x. []) 0 [] (submit_blocks bitcoin (\<lambda>s. 0) sc_host [block_header (sc_main 9)] (sc_client 4)))) sc_start =
    sc_start\<lparr>first_block_height_to_submit := 5\<rparr>"
proof -
  have "headers_pool (sc_client 4) (prev_block_hash (block_header (sc_main 9))) = None"
  proof (cases "headers_pool (sc_client 4) (sc_hash 8)")
    case (Some e)
    then obtain i where "i \<le> 4" "sc_hash 8 = sc_hash i" using sc_pool by blast
    then show ?thesis using sc_hash_inj [of 8 i] by simp
  qed (simp add: sc_main_fields)
  then have "\<not> is_paused sc_host ''submit_blocks'' \<and> is_trusted_relayer sc_host \<and>
      headers_pool (sc_client 4) (prev_block_hash (block_header (sc_main 9))) = None" by simp
  from relayer_reacts_to_contract [OF sc_faithful refl refl, THEN conjunct1, THEN mp, OF this]
  have "fold apply_action (reaction \<lparr>first_block_height = 9, last_block_height = 9, signed_tx = ()\<rparr> 4
      (contract_outcome sc_report (\<lambda>x. []) 0 [] (submit_blocks bitcoin (\<lambda>s. 0) sc_host [block_header (sc_main 9)] (sc_client 4)))) sc_start =
    sc_start\<lparr>first_block_height_to_submit := 4 + 1\<rparr>" .
  then show ?thesis by simp
qed

text \<open>
  C27: signing returns where the queries and the encoding do and the batch size is positive. The
  transactions carry the fetched blocks in order, each at most \<open>batch_size\<close> of them and at least one, with
  the heights of its first and last block and consecutive nonces, as calls of \<open>submit_blocks\<close> with a deposit
  of half a NEAR and 300 Tgas.
\<close>

theorem relayer_signs_all_blocks:
  assumes "\<And>bs. \<exists>args. to_vec bs = Inr args" "\<And>n. \<exists>r. key_query signer n = Inr r"
    and "response_kind response = AccessKey n" "0 < batch_size"
  shows "\<exists>txs parts. sign_submit_blocks (Inr response) signer to_vec headers batch_size = Inr txs \<and>
    concat parts = headers \<and> length txs = length parts \<and> (\<forall>k < length parts.
      parts ! k \<noteq> [] \<and> length (parts ! k) \<le> batch_size \<and>
      first_block_height (txs ! k) = fst (hd (parts ! k)) \<and> last_block_height (txs ! k) = fst (last (parts ! k)) \<and>
      submits signer to_vec (n + 1 + word_of_nat k) (parts ! k) (signed_tx (txs ! k)))"
proof -
  obtain txs where txs: "sign_submit_blocks (Inr response) signer to_vec headers batch_size = Inr txs"
    using sign_submit_blocks_total [where to_vec = to_vec, OF assms] by blast
  show ?thesis using txs sign_submit_blocks_Inr [OF txs assms(3)] by blast
qed

theorem relayer_signs_all_blocks_witness:
  "\<exists>txs parts. sign_submit_blocks (Inr \<lparr>response_kind = AccessKey 7, response_block_hash = []\<rparr>) sc_signer (\<lambda>bs. Inr [])
      (map (\<lambda>k. (word_of_nat k, block_header (sc_main k))) [5 ..< 10]) 2 = Inr txs \<and>
    concat parts = map (\<lambda>k. (word_of_nat k :: u64, block_header (sc_main k))) [5 ..< 10] \<and> length txs = length parts"
proof -
  let ?response = "\<lparr>response_kind = AccessKey 7, response_block_hash = []\<rparr>"
  have vec: "\<exists>args. Inr [] = Inr args" for bs :: "btc_header list" by simp
  have query: "\<exists>r. key_query sc_signer n = Inr r" for n by (simp add: sc_signer_def)
  have kind: "response_kind ?response = AccessKey 7" by simp
  have size: "0 < (2 :: nat)" by simp
  show ?thesis
    using relayer_signs_all_blocks [where to_vec = "\<lambda>bs. Inr []", OF vec query kind size,
      of "map (\<lambda>k. (word_of_nat k, block_header (sc_main k))) [5 ..< 10]"] by blast
qed

text \<open>
  C28: through any run of the relayer, with any outcomes of its transactions in any order, the batch size
  stays between the configured minimum and maximum and the fetch size below its maximum, where the
  configured minimum is not above the maximum.
\<close>

theorem relayer_batch_size_bounds:
  assumes "config_min_batch_size conf \<le> submit_batch_size conf"
    and "sync_start conf last_correct = Inr st" "sync env hash_of its st st'"
  shows "config_min_batch_size conf \<le> current_batch_size (relay_sizer st') \<and>
    current_batch_size (relay_sizer st') \<le> submit_batch_size conf \<and>
    current_fetch_size (relay_sizer st') \<le> fetch_batch_size conf"
proof -
  have st: "relay_sizer st = sizer_new conf" using assms(2) by (auto simp: sync_start_def split: sum.splits)
  show ?thesis using sync_sizer [OF assms(3)] sizer_new_ok [OF assms(1)] unfolding st
    by (auto simp: sizer_ok_def same_limits_def sizer_new_def current_fetch_size_def)
qed

theorem relayer_batch_size_bounds_witness:
  "\<exists>st'. sync sc_host (btc_block_hash sc_host) [sc_iteration (Inr (Inl GasExceeded_Error))] sc_start st' \<and>
    current_batch_size (relay_sizer st') = 7 \<and> current_batch_size (relay_sizer st') \<le> submit_batch_size sc_config"
proof -
  obtain tx :: "transaction signed_submit" and st' where
    run: "sync_iteration sc_host (btc_block_hash sc_host) (sc_iteration (Inr (Inl GasExceeded_Error))) sc_start st'" and
    st': "st' = fold apply_action (task_actions tx (Inr (Inl GasExceeded_Error)) (Inr 3)) sc_start"
    using sc_iterate by blast
  have size: "current_batch_size (relay_sizer st') = 7"
    unfolding st' by (simp add: task_actions_def sc_start_def sc_sizer on_gas_exceeded_def)
  have sync: "sync sc_host (btc_block_hash sc_host) [sc_iteration (Inr (Inl GasExceeded_Error))] sc_start st'"
    by (rule sync.iterate [OF run sync.start])
  have "sync_start sc_config (Inr 4) = Inr sc_start" by (simp add: sync_start_def sc_start_def)
  from relayer_batch_size_bounds [OF _ this sync] show ?thesis
    using sync size by (auto simp: sc_config_def default_min_batch_size_def default_submit_batch_size_def)
qed

text \<open>
  C29: with a node that has the requested blocks, the arguments that the relayer computes initialise the
  Bitcoin contract: its tip is the node's block at the initial height.
\<close>

theorem relayer_initialises_contract:
  assumes "header_run (btc_block_hash env) hs" "11 < length hs"
    and "\<forall>h \<in> set hs. \<exists>x. get_aux (btc_block_hash env h) = Inr (h, x)"
    and "node_block_hash node (init_height conf) = Inr (btc_block_hash env (last hs))"
    and "unat (num_of_blcoks_to_submit conf) = length hs" "length hs \<le> Suc (unat (init_height conf))"
    and "(init_height conf - num_of_blcoks_to_submit conf + 1) mod 2016 = 0" "unat (init_height conf) + 2 < 2 ^ 64"
    and "total_work hs < B256" "\<not> state_exists env" "is_self_call env" "acl_init_super_admin env"
  shows "\<exists>args s e. init_contract_args (btc_block_hash env) node get_aux conf = Inr args \<and> init bitcoin env args = Inr s \<and>
    get_last_block_header s = Inr e \<and> block_hash e = btc_block_hash env (last hs) \<and> block_height e = init_height conf"
proof -
  let ?n = "init_height conf - num_of_blcoks_to_submit conf + 1"
  let ?args = "\<lparr>genesis_block_hash = btc_block_hash env (hd hs), genesis_block_height = ?n,
     arg_skip_pow_verification = init_skip_pow_verification conf,
     arg_gc_threshold = init_gc_threshold conf, arg_network = init_network conf, submit_blocks_arg = hs\<rparr>"
  have ne: "hs \<noteq> []" using assms(2) by auto
  have args: "init_contract_args (btc_block_hash env) node get_aux conf = Inr ?args"
    by (rule init_contract_args_run [OF assms(1) ne assms(3-5)])
  have n: "unat ?n + length hs = Suc (unat (init_height conf))"
    using first_init_height [OF assms(5,6)] ne by simp
  have "hash_linked bitcoin env hs"
    using run_hash_linked [of bitcoin env hs] assms(1) by (simp add: bitcoin_def btc_into_light_def)
  then have "good_init_args bitcoin env ?args"
    using assms(2,7-12) ne n
    by (simp add: good_init_args_def) (simp add: bitcoin_def btc_genesis_check_def MEDIAN_TIME_SPAN_def)
  from btc.init_total [OF this] obtain s e where s: "init bitcoin env ?args = Inr s" "get_last_block_header s = Inr e" and
    e: "block_hash e = header_hash bitcoin env (last hs)" "unat (block_height e) + 1 = unat ?n + length hs" by auto
  have "block_height e = init_height conf" using e(2) n by (simp add: word_unat_eq_iff)
  then show ?thesis using args s e(1) by (auto simp: bitcoin_def)
qed

theorem relayer_initialises_contract_witness:
  "\<exists>args s e. init_contract_args (btc_block_hash sc_host) (sc_node 20 100) sc_get_aux
      \<lparr>init_network = Mainnet, num_of_blcoks_to_submit = 12, init_gc_threshold = 100, init_skip_pow_verification = False, init_height = 11\<rparr> = Inr args \<and>
    init bitcoin sc_host args = Inr s \<and> get_last_block_header s = Inr e \<and> block_hash e = sc_hash 11 \<and> block_height e = 11"
proof -
  let ?hs = "map (\<lambda>k. block_header (sc_main k)) [0 ..< 12]"
  have "total_work ?hs < B256" unfolding sc_headers_12 by (simp add: total_work_def sc_main_header sc_work)
  moreover have "last ?hs = block_header (sc_main 11)" unfolding sc_headers_12 by simp
  ultimately show ?thesis
    using relayer_initialises_contract [OF sc_header_run, of sc_get_aux "sc_node 20 100"
      "\<lparr>init_network = Mainnet, num_of_blcoks_to_submit = 12, init_gc_threshold = 100, init_skip_pow_verification = False, init_height = 11\<rparr>"]
    by (simp add: sc_main_hash sc_get_aux_def sc_node_def)
qed

section \<open>The other chains\<close>

text \<open>
  C30: the invariant of the main chain holds in every state that the contracts of the other chains can reach:
  Litecoin, Dogecoin, whose submissions come with the data of merged mining, and Zcash, which stores
  light headers without nonce and solution.
\<close>

theorem other_chains_reachable_invariant:
  "(reachable litecoin (\<lambda>h. h) S g s \<and> collision_free S g \<longrightarrow> (\<exists>c. chain_inv S g c s)) \<and>
   (reachable dogecoin fst S g s \<and> collision_free S g \<longrightarrow> (\<exists>c. chain_inv S g c s)) \<and>
   (reachable zcash (\<lambda>h. h) S' g' s' \<and> collision_free S' g' \<longrightarrow> (\<exists>c. chain_inv S' g' c s'))"
  using ltc.reachable_inv doge.reachable_inv zec.reachable_inv by blast

theorem other_chains_reachable_invariant_witness:
  "(\<exists>s c. reachable litecoin (\<lambda>h. h) sc_headers (sc_genesis 2015) s \<and> chain_inv sc_headers (sc_genesis 2015) c s) \<and>
   (\<exists>s c. reachable dogecoin fst sc_headers (sc_genesis 0) s \<and> chain_inv sc_headers (sc_genesis 0) c s) \<and>
   (\<exists>s c. reachable zcash (\<lambda>h. h) zc_headers zc_genesis s \<and> chain_inv zc_headers zc_genesis c s)"
  using sc_reachable_ltc sc_reachable_doge zc_reachable sc_genesis_collision_free [of 2015]
    sc_genesis_collision_free [of 0] zc_collision_free other_chains_reachable_invariant by meson

section \<open>Views\<close>

text \<open>
  C31: \<open>get_last_n_blocks_hashes\<close> returns, oldest first, the hashes of the last \<open>limit\<close> blocks before the last
  \<open>skip\<close> ones, fewer if the stored chain is shorter, provided the tip's height is at least \<open>limit + skip\<close>;
  asking for more fails with an underflow instead of a shorter list.
\<close>

theorem last_hashes_of_chain:
  assumes "collision_free S g" "chain_inv S g c s" "0 < limit"
  shows "get_last_n_blocks_hashes s skip limit =
    (if unat limit + unat skip \<le> unat (block_height (last c))
     then Inr (map block_hash (drop (length c - unat skip - unat limit) (take (length c - unat skip) c)))
     else Inl Overflow)"
  using last_n_hashes [OF assms] last_n_hashes_underflow [OF assms(2)] by simp

theorem last_hashes_of_chain_witness:
  "get_last_n_blocks_hashes (sc_client 9) 2 3 = Inr [sc_hash 5, sc_hash 6, sc_hash 7] \<and>
   get_last_n_blocks_hashes (sc_client 9) 2 8 = Inl Overflow"
proof -
  have "drop 5 (take 8 (sc_chain 9)) = [sc_main 5, sc_main 6, sc_main 7]"
    by (simp add: sc_chain_def upt_rec eval_nat_numeral)
  then show ?thesis using last_hashes_of_chain [OF sc_collision_free sc_inv, of 9 3 2] last_hashes_of_chain [OF sc_collision_free sc_inv, of 9 8 2]
    by (simp add: sc_main_height sc_main_fields)
qed

text \<open>C32: the two indexes of the main chain are inverse to each other, and the reported size is its length.\<close>

theorem chain_views_agree:
  assumes "collision_free S g" "chain_inv S g c s" "length c < 2 ^ 64"
  shows "(\<forall>n h. get_block_hash_by_height s n = Some h \<longleftrightarrow> get_height_by_block_hash s h = Some n) \<and>
    (\<exists>n. get_mainchain_size s = Inr n \<and> unat n = length c)"
  using hash_height_agree [OF assms(2)] mainchain_size [OF assms] by blast

theorem chain_views_agree_witness: "\<exists>n. get_mainchain_size (sc_client 9) = Inr n \<and> unat n = 10"
  using chain_views_agree [OF sc_collision_free sc_inv, of 9] by simp

section \<open>Arithmetic\<close>

text \<open>C33: long division of 256-bit numbers returns quotient and remainder for every divisor but zero.\<close>

theorem u256_long_division:
  assumes "val y \<noteq> 0"
  shows "\<exists>q r. u256_div_rem x y = Inr (q, r) \<and> val q = val x div val y \<and> val r = val x mod val y"
  using assms by (rule div_rem_correct)

theorem u256_long_division_witness:
  "\<exists>q r. u256_div_rem (U256 5 7) (U256 0 3) = Inr (q, r) \<and> val q = (5 * 2 ^ 128 + 7) div 3 \<and> val r = (5 * 2 ^ 128 + 7) mod 3"
  using u256_long_division [of "U256 0 3" "U256 5 7"] by (simp add: val_def)

text \<open>
  C34: \<open>overflowing_mul\<close> without overflow is exact up to one carry between the halves, which is lost on some
  operands; then the product is too small by \<open>2 ^ 128\<close>. It is exact on every target in compact form, for
  the factors of the difficulty rules. The carry is really lost on the operands of the last line.
\<close>

theorem u256_multiplication:
  assumes "\<not> snd (u256_overflowing_mul x rhs)"
  shows "val x * unat rhs = val (fst (u256_overflowing_mul x rhs)) + lost_carry x rhs * B128 \<and> lost_carry x rhs \<le> 1 \<and>
    (\<forall>b. x = target_from_bits b \<longrightarrow> unat rhs < 2 ^ 32 \<longrightarrow> lost_carry x rhs = 0) \<and>
    (u256_overflowing_mul (U256 0 0x3FFFFFFFFFFFFFFFF) 0xA000000000000000 = (U256 1 0x7FFFFFFFFFFFFFFF6000000000000000, False) \<and>
     val (U256 0 0x3FFFFFFFFFFFFFFFF) * unat (0xA000000000000000 :: u64) = val (U256 1 0x7FFFFFFFFFFFFFFF6000000000000000) + 2 ^ 128)"
proof -
  have "u256_overflowing_mul (U256 0 0x3FFFFFFFFFFFFFFFF) 0xA000000000000000 = (U256 1 0x7FFFFFFFFFFFFFFF6000000000000000, False) \<and>
     val (U256 0 0x3FFFFFFFFFFFFFFFF) * unat (0xA000000000000000 :: u64) = val (U256 1 0x7FFFFFFFFFFFFFFF6000000000000000) + 2 ^ 128"
    by (simp add: u256_overflowing_mul_def overflowing_mul_w_def overflowing_add_w_def val_def)
  moreover have "\<forall>b. x = target_from_bits b \<longrightarrow> unat rhs < 2 ^ 32 \<longrightarrow> lost_carry x rhs = 0"
    using lost_carry_compact [of rhs] by simp
  ultimately show ?thesis using val_overflowing_mul_error [OF assms] lost_carry_le_1 [of x rhs] by blast
qed

theorem u256_multiplication_witness:
  "\<not> snd (u256_overflowing_mul (target_from_bits sc_easy) 3) \<and>
   val (fst (u256_overflowing_mul (target_from_bits sc_easy) 3)) = 3 * (65535 * 2 ^ 208)"
proof -
  have "val (target_from_bits sc_easy) * unat (3 :: u64) < B256" by (simp add: val_target_from_bits sc_targets)
  from mul_no_overflow [OF this] have no: "\<not> snd (u256_overflowing_mul (target_from_bits sc_easy) 3)" .
  from u256_multiplication [OF this] have "lost_carry (target_from_bits sc_easy) 3 = 0" by auto
  with u256_multiplication [OF no] no show ?thesis by (simp add: val_target_from_bits sc_targets)
qed

text \<open>
  C35: the work of a block always exists and is positive: it is \<open>2 ^ 256\<close> divided by its target plus one, and the
  largest number for the targets 0 and 1.
\<close>

theorem work_of_target:
  "\<exists>w. work_from_bits b = Inr w \<and> 0 < val w \<and>
    val w = (if target_val b \<le> 1 then 2 ^ 256 - 1 else 2 ^ 256 div (target_val b + 1))"
  using work_from_bits_total [of b] block_work_pos [of b] unfolding block_work_def by metis

text \<open>
  C36: packing a target into 32 bits never fails; unpacking the result gives at most the target, and less than one
  part in \<open>2 ^ 15\<close> below it.
\<close>

theorem compact_target_bounds:
  "\<exists>b. target_to_bits x = Inr b \<and> target_val b \<le> val x \<and> (val x - target_val b) * 2 ^ 15 \<le> target_val b"
  using target_to_bits_total [of x] target_to_bits_bounds [of x] by blast

text \<open>C37: a canonical compact target survives unpacking and packing.\<close>

theorem compact_target_roundtrip:
  "canonical_bits b \<Longrightarrow> target_to_bits (target_from_bits b) = Inr b"
  by (rule target_to_bits_canonical)

theorem compact_target_roundtrip_witness: "target_to_bits (target_from_bits 0x1d00ffff) = Inr 0x1d00ffff"
  by (rule compact_target_roundtrip) (simp add: canonical_bits_def expt_def mant_def)

section \<open>Header formats\<close>

text \<open>
  C38: a Bitcoin header survives encoding and decoding; decoding fails exactly on inputs that are not 80 bytes long,
  and encoding its result gives the input back.
\<close>

theorem btc_header_roundtrip:
  "(wf_btc_header h \<longrightarrow> btc_from_block_header_vec (btc_get_block_header_vec h) = Inr h) \<and>
   (btc_from_block_header_vec b = Inl InvalidLength \<longleftrightarrow> length b \<noteq> 80) \<and>
   (\<forall>h'. btc_from_block_header_vec b = Inr h' \<longrightarrow> btc_get_block_header_vec h' = b \<and> wf_btc_header h')"
  using btc_dec_enc [of h] btc_codec.dec_cases [of b] btc_enc_dec [of b] btc_codec.dec_wf [of b] by (auto simp: btc_SIZE_def)

theorem btc_header_roundtrip_witness:
  "btc_from_block_header_vec (btc_get_block_header_vec (sc_header sc_origin 7 sc_easy)) = Inr (sc_header sc_origin 7 sc_easy)"
  using btc_header_roundtrip [of "sc_header sc_origin 7 sc_easy"]
  by (auto simp: wf_btc_header_def wf_h256_def sc_origin_def sc_root_def)

text \<open>
  C39: a Zcash header survives encoding and decoding, and decoding fails exactly on inputs of another length; but
  the length bytes before the solution are not checked, so encoding gives the input back exactly if they
  are the usual ones.
\<close>

theorem zcash_header_roundtrip:
  "(wf_zcash_header h \<longrightarrow> zcash_from_block_header_vec (zcash_get_block_header_vec h) = Inr h) \<and>
   (zcash_from_block_header_vec b = Inl InvalidLength \<longleftrightarrow> length b \<noteq> 1487) \<and>
   (\<forall>h'. zcash_from_block_header_vec b = Inr h' \<longrightarrow>
     (zcash_get_block_header_vec h' = b \<longleftrightarrow> byte_slice b 140 143 = [0xfd, 0x40, 0x05]))"
  using zcash_dec_enc [of h] zcash_codec.dec_cases [of b] zcash_enc_dec [of b] by (auto simp: zcash_SIZE_def)

theorem zcash_header_roundtrip_witness:
  "zcash_from_block_header_vec (zcash_get_block_header_vec (zc_header 3)) = Inr (zc_header 3)"
  using zcash_header_roundtrip [of "zc_header 3"]
  by (auto simp: wf_zcash_header_def wf_h256_def zc_header_def zc_prev_def sc_root_def)

text \<open>
  C40: the JSON text of a hash is read back as the hash, and different hashes have different text. The text of
  a number in \<open>serd_u32_hex\<close> is read back with its bytes reversed.
\<close>

theorem json_text_roundtrip:
  assumes "standard_hex env" "wf_h256 a" "wf_h256 b"
  shows "h256_deserialize env (h256_serialize env a) = Some a \<and>
    (h256_to_string env a = h256_to_string env b \<longleftrightarrow> a = b) \<and>
    u32_hex_deserialize (u32_hex_serialize env w) = Some (from_be_bytes_w (to_le_bytes_w w))"
  using h256_json_roundtrip [OF assms(1,2)] h256_to_string_inj [OF assms] u32_hex_swaps [OF assms(1)] by blast

theorem json_text_roundtrip_witness:
  "\<exists>env. standard_hex env \<and> h256_deserialize env (h256_serialize env (sc_hash 5)) = Some (sc_hash 5) \<and>
    u32_hex_deserialize (u32_hex_serialize env 1) = Some 0x01000000"
proof -
  let ?env = "sc_host\<lparr>hex_encode := hex_text, hex_decode := hex_parse\<rparr>"
  have "wf_h256 (sc_hash 5)" by (simp add: wf_h256_def)
  moreover have "to_le_bytes_w (1 :: u32) = [1, 0, 0, 0]"
  proof -
    have "LENGTH(32) div 8 = Suc (Suc (Suc (Suc 0)))" by simp
    then show ?thesis unfolding to_le_bytes_w_def by (simp only: le_bytes.simps) simp
  qed
  then have "from_be_bytes_w (to_le_bytes_w (1 :: u32)) = (0x01000000 :: u32)"
    by (simp add: from_be_bytes_w_def from_le_bytes_w_def)
  ultimately show ?thesis
    using standard_hex_possible [of sc_host] json_text_roundtrip [OF standard_hex_possible [of sc_host], of "sc_hash 5" "sc_hash 5" 1]
    by (intro exI [of _ ?env]) simp
qed

end
